theory Spec2Isabelle
  imports Complex_Main "HOL-Library.AList"
begin

section \<open>Python strings\<close>

text \<open>
  The program is Python; its strings are sequences of code points.  A string is modelled
  as a \<^typ>\<open>string\<close> whose characters are read as the code points 0 to 255, and the string
  methods the program calls (\<^verbatim>\<open>strip\<close>, \<^verbatim>\<open>rstrip\<close>, \<^verbatim>\<open>lower\<close>, \<^verbatim>\<open>startswith\<close>,
  \<^verbatim>\<open>split\<close>, \<^verbatim>\<open>replace\<close>, \<^verbatim>\<open>in\<close>, \<^verbatim>\<open>join\<close>) are written out with Python's
  behaviour on that range.
\<close>

definition whitespace :: "char list" where
  \<comment> \<open>the code points below 256 for which \<^verbatim>\<open>str.isspace\<close> holds\<close>
  "whitespace = [CHR 0x09, CHR 0x0A, CHR 0x0B, CHR 0x0C, CHR 0x0D,
                 CHR 0x1C, CHR 0x1D, CHR 0x1E, CHR 0x1F, CHR 0x20, CHR 0x85, CHR 0xA0]"

definition lstrip_chars :: "char list \<Rightarrow> string \<Rightarrow> string" where
  \<comment> \<open>\<^verbatim>\<open>s.lstrip(chars)\<close>: drops every leading character that is in \<^verbatim>\<open>chars\<close>\<close>
  "lstrip_chars cs s = dropWhile (\<lambda>c. c \<in> set cs) s"

definition rstrip_chars :: "char list \<Rightarrow> string \<Rightarrow> string" where
  \<comment> \<open>\<^verbatim>\<open>s.rstrip(chars)\<close>\<close>
  "rstrip_chars cs s = rev (dropWhile (\<lambda>c. c \<in> set cs) (rev s))"

definition strip_chars :: "char list \<Rightarrow> string \<Rightarrow> string" where
  \<comment> \<open>\<^verbatim>\<open>s.strip(chars)\<close>\<close>
  "strip_chars cs s = rstrip_chars cs (lstrip_chars cs s)"

definition py_rstrip :: "string \<Rightarrow> string" where
  "py_rstrip s = rstrip_chars whitespace s"

definition py_strip :: "string \<Rightarrow> string" where
  "py_strip s = strip_chars whitespace s"

definition lower_char :: "char \<Rightarrow> char" where
  \<comment> \<open>A to Z and the Latin-1 capitals 0xC0 to 0xDE (without 0xD7) move up by 32\<close>
  "lower_char c =
     (let n = (of_char c :: nat)
      in if (65 \<le> n \<and> n \<le> 90) \<or> (192 \<le> n \<and> n \<le> 222 \<and> n \<noteq> 215)
         then char_of (n + 32) else c)"

definition py_lower :: "string \<Rightarrow> string" where
  "py_lower s = map lower_char s"

definition startswith :: "string \<Rightarrow> string \<Rightarrow> bool" where
  \<comment> \<open>\<^verbatim>\<open>s.startswith(p)\<close>\<close>
  "startswith s p = (take (length p) s = p)"

fun py_in :: "string \<Rightarrow> string \<Rightarrow> bool" where
  \<comment> \<open>\<^verbatim>\<open>q in s\<close>: \<^verbatim>\<open>q\<close> occurs in \<^verbatim>\<open>s\<close> as a contiguous substring\<close>
  "py_in q [] = (q = [])"
| "py_in q (c # s) = (startswith (c # s) q \<or> py_in q s)"

fun split_first :: "string \<Rightarrow> string \<Rightarrow> (string \<times> string) option" where
  \<comment> \<open>the text before and after the first occurrence of a non-empty separator;
      \<^verbatim>\<open>s.split(sep, 1)\<close> is \<^verbatim>\<open>[s]\<close> when this is \<open>None\<close> and \<^verbatim>\<open>[a, b]\<close> when it is
      \<open>Some (a, b)\<close>, and \<^verbatim>\<open>s.split(sep)[0]\<close> is \<^verbatim>\<open>s\<close> or \<^verbatim>\<open>a\<close>\<close>
  "split_first sep [] = None"
| "split_first sep (c # s) =
     (if startswith (c # s) sep then Some ([], drop (length sep) (c # s))
      else map_option (\<lambda>(a, b). (c # a, b)) (split_first sep s))"

definition split_head :: "string \<Rightarrow> string \<Rightarrow> string" where
  \<comment> \<open>\<^verbatim>\<open>s.split(sep)[0]\<close> and \<^verbatim>\<open>s.split(sep, 1)[0]\<close>\<close>
  "split_head sep s = (case split_first sep s of None \<Rightarrow> s | Some (a, b) \<Rightarrow> a)"

function py_replace :: "string \<Rightarrow> string \<Rightarrow> string \<Rightarrow> string" where
  \<comment> \<open>\<^verbatim>\<open>s.replace(old, new)\<close> for a non-empty \<^verbatim>\<open>old\<close>: occurrences are replaced from the
      left, without overlap\<close>
  "py_replace old new s =
     (if s = [] \<or> old = [] then s
      else if startswith s old then new @ py_replace old new (drop (length old) s)
      else hd s # py_replace old new (tl s))"
  by pat_completeness auto
termination
  by (relation "measure (\<lambda>(old, new, s). length s)") auto

declare py_replace.simps [simp del]

fun join_lines :: "string list \<Rightarrow> string" where
  \<comment> \<open>\<^verbatim>\<open>"\n".join(ls)\<close>\<close>
  "join_lines [] = []"
| "join_lines [l] = l"
| "join_lines (l # ls) = l @ CHR 0x0A # join_lines ls"

type_synonym entry = "(string \<times> string) list"
  \<comment> \<open>a record of the store: a Python dictionary from field names to values, in
      insertion order; \<open>map_of\<close> reads it and \<open>AList.update\<close> assigns a key\<close>

section \<open>Schema registry: the canonical field list\<close>

fun dedup :: "string set \<Rightarrow> string list \<Rightarrow> string list" where
  \<comment> \<open>\<^verbatim>\<open>[x for x in xs if not (x in seen or seen.add(x))]\<close>\<close>
  "dedup seen [] = []"
| "dedup seen (x # xs) =
     (if x \<in> seen then dedup seen xs else x # dedup (insert x seen) xs)"

definition load_bibtex_fields :: "string list \<Rightarrow> string list \<Rightarrow> string list" where
  \<comment> \<open>\<^verbatim>\<open>registry\<close> is \<^verbatim>\<open>list(bibtex_info['fields'].keys())\<close>, \<^verbatim>\<open>field_order\<close> is
      \<^verbatim>\<open>settings.get('field_order', [])\<close>; the result is \<^verbatim>\<open>BIB_FIELDS\<close>.  The second
      comprehension runs over \<^verbatim>\<open>BIB_FIELDS\<close> as the first one has just rebound it.\<close>
  "load_bibtex_fields registry field_order =
     (let bib_fields = registry
      in if field_order \<noteq> [] then
           let bib_fields1 = filter (\<lambda>f. f \<in> set bib_fields) field_order;
               bib_fields2 = bib_fields1 @ filter (\<lambda>f. f \<notin> set field_order) bib_fields1
           in dedup {} bib_fields2
         else bib_fields)"

section \<open>Serializer\<close>

definition field_line :: "string \<Rightarrow> string \<Rightarrow> string" where
  \<comment> \<open>\<^verbatim>\<open>f"\t{f}\t\t = {{{entry[f]}}},"\<close>\<close>
  "field_line f v = CHR 0x09 # f @ [CHR 0x09, CHR 0x09] @ '' = {'' @ v @ ''},''"

fun field_lines :: "entry \<Rightarrow> string list \<Rightarrow> string list" where
  \<comment> \<open>the loop over \<^verbatim>\<open>settings['field_order']\<close>, for the record \<open>r\<close>\<close>
  "field_lines r [] = []"
| "field_lines r (f # fs) =
     (case map_of r f of
        Some v \<Rightarrow> field_line f v # field_lines r fs
      | None \<Rightarrow> field_lines r fs)"

definition bibtex_lines :: "string \<Rightarrow> string \<Rightarrow> entry \<Rightarrow> string list \<Rightarrow> string list" where
  "bibtex_lines et k r field_order =
     (let ls = (''@'' @ et @ ''{'' @ k @ '','') # field_lines r field_order;
          ls' = ls[length ls - 1 := rstrip_chars '','' (ls ! (length ls - 1))]
      in ls' @ [''}''])"

definition serialize :: "string \<Rightarrow> entry \<Rightarrow> string \<Rightarrow> string list \<Rightarrow> string" where
  \<comment> \<open>\<^verbatim>\<open>bibtex_entry\<close> of \<^verbatim>\<open>search\<close>, with the entry type as an argument\<close>
  "serialize k r et field_order = join_lines (bibtex_lines et k r field_order)"

definition render_result :: "string \<Rightarrow> entry \<Rightarrow> string list \<Rightarrow> string" where
  \<comment> \<open>as \<^verbatim>\<open>search\<close> calls it: \<^verbatim>\<open>entry_type = entry.get('entry_type', 'article')\<close>\<close>
  "render_result k r field_order =
     serialize k r (case map_of r ''entry_type'' of Some t \<Rightarrow> t | None \<Rightarrow> ''article'')
       field_order"

section \<open>Match engine\<close>

text \<open>
  The loop body of \<^verbatim>\<open>search\<close> decides one field value.  Two library calls are taken as
  parameters.  \<open>re_search\<close> stands for \<^verbatim>\<open>re.search(query, value)\<close>, which returns a match
  object or \<^verbatim>\<open>None\<close>, raises \<^verbatim>\<open>re.error\<close>, or raises an exception of another class.
  \<open>ratio\<close> stands for \<^verbatim>\<open>SequenceMatcher(None, a, b).ratio()\<close>; the comparison with the
  threshold is an exact comparison of two numbers, taken here on the reals.
\<close>

datatype re_outcome = Match | No_match | Re_error | Other_exception

datatype search_error = Uncaught_exception

definition match_value ::
  "(string \<Rightarrow> string \<Rightarrow> re_outcome) \<Rightarrow> (string \<Rightarrow> string \<Rightarrow> real) \<Rightarrow>
     string list \<Rightarrow> real \<Rightarrow> string \<Rightarrow> string \<Rightarrow> search_error + (bool \<times> bool)" where
  \<comment> \<open>the flags \<^verbatim>\<open>(matched, preview_match)\<close> after the four \<^verbatim>\<open>if\<close> blocks\<close>
  "match_value re_search ratio selected_matches fuzzy_sensitivity query val =
     (let matched0 =
        (if ''case-sensitive'' \<in> set selected_matches then
           (if ''exact'' \<in> set selected_matches \<and> val = query then True
            else if ''contains'' \<in> set selected_matches \<and> py_in query val then True
            else False)
         else
           (if ''exact'' \<in> set selected_matches \<and> py_lower val = py_lower query then True
            else if ''contains'' \<in> set selected_matches \<and> py_in (py_lower query) (py_lower val)
            then True
            else False));
          regex_step =
        (if ''regex'' \<in> set selected_matches then
           (case re_search query val of
              Match \<Rightarrow> Inr True
            | No_match \<Rightarrow> Inr matched0
            | Re_error \<Rightarrow> Inr matched0
            | Other_exception \<Rightarrow> Inl Uncaught_exception)
         else Inr matched0)
      in case regex_step of
           Inl e \<Rightarrow> Inl e
         | Inr matched1 \<Rightarrow>
             (if ''fuzzy'' \<in> set selected_matches then
                (let similarity = ratio (py_lower val) (py_lower query)
                 in if similarity \<ge> fuzzy_sensitivity then Inr (True, True)
                    else Inr (matched1, False))
              else Inr (matched1, False)))"

definition matches ::
  "(string \<Rightarrow> string \<Rightarrow> re_outcome) \<Rightarrow> (string \<Rightarrow> string \<Rightarrow> real) \<Rightarrow>
     string \<Rightarrow> string \<Rightarrow> string list \<Rightarrow> real \<Rightarrow> search_error + (bool \<times> string)" where
  \<comment> \<open>the verdict with the preview text \<^verbatim>\<open>value if preview_match else ''\<close>\<close>
  "matches re_search ratio val query selected_matches fuzzy_sensitivity =
     (case match_value re_search ratio selected_matches fuzzy_sensitivity query val of
        Inl e \<Rightarrow> Inl e
      | Inr (matched, preview_match) \<Rightarrow> Inr (matched, if preview_match then val else []))"

fun search_loop ::
  "(string \<Rightarrow> string \<Rightarrow> re_outcome) \<Rightarrow> (string \<Rightarrow> string \<Rightarrow> real) \<Rightarrow>
     string \<Rightarrow> string \<Rightarrow> string list \<Rightarrow> real \<Rightarrow>
     (string \<times> entry \<times> string) list \<Rightarrow> (string \<times> entry) list \<Rightarrow>
     search_error + (string \<times> entry \<times> string) list" where
  \<comment> \<open>\<^verbatim>\<open>for key, entry in db.items()\<close>, with \<^verbatim>\<open>results\<close> as the accumulator\<close>
  "search_loop re_search ratio field query selected_matches fuzzy_sensitivity results [] =
     Inr results"
| "search_loop re_search ratio field query selected_matches fuzzy_sensitivity results
     ((k, r) # db) =
     (let val = (case map_of r field of Some v \<Rightarrow> v | None \<Rightarrow> [])
      in case match_value re_search ratio selected_matches fuzzy_sensitivity query val of
           Inl e \<Rightarrow> Inl e
         | Inr (matched, preview_match) \<Rightarrow>
             search_loop re_search ratio field query selected_matches fuzzy_sensitivity
               (if matched then results @ [(k, r, if preview_match then val else [])]
                else results)
               db)"

definition search ::
  "(string \<Rightarrow> string \<Rightarrow> re_outcome) \<Rightarrow> (string \<Rightarrow> string \<Rightarrow> real) \<Rightarrow>
     (string \<times> entry) list \<Rightarrow> string \<Rightarrow> string \<Rightarrow> string list \<Rightarrow> real \<Rightarrow>
     search_error + (string \<times> entry \<times> string) list" where
  "search re_search ratio db field query selected_matches fuzzy_sensitivity =
     search_loop re_search ratio field query selected_matches fuzzy_sensitivity [] db"

section \<open>Importer\<close>

text \<open>
  The importer reads the file in text mode, where \<^verbatim>\<open>\n\<close>, \<^verbatim>\<open>\r\<close> and \<^verbatim>\<open>\r\n\<close> each end a
  line, and strips every line on the right.  \<open>file_lines\<close> yields the lines without their
  terminator, which the right strip would remove with the other trailing whitespace.
\<close>

fun file_lines :: "string \<Rightarrow> string \<Rightarrow> string list" where
  "file_lines cur [] = (if cur = [] then [] else [cur])"
| "file_lines cur (c # s) =
     (if c = CHR 0x0A then cur # file_lines [] s
      else if c = CHR 0x0D then
        (case s of
           [] \<Rightarrow> [cur]
         | d # s' \<Rightarrow> if d = CHR 0x0A then cur # file_lines [] s' else cur # file_lines [] s)
      else file_lines (cur @ [c]) s)"

definition read_lines :: "string \<Rightarrow> string list" where
  \<comment> \<open>\<^verbatim>\<open>[line.rstrip() for line in f]\<close>\<close>
  "read_lines txt = map py_rstrip (file_lines [] txt)"

type_synonym parsed_entry = "(string \<times> string option) list"
  \<comment> \<open>the dictionary under construction: a value is a string, or \<^verbatim>\<open>None\<close> where the
      variable \<^verbatim>\<open>entry_type\<close> is stored while it is \<^verbatim>\<open>None\<close>\<close>

record parser_state =
  parsed_entries :: "(string \<times> parsed_entry) list"
  entry :: parsed_entry
  key :: "string option"
  entry_type :: "string option"
  inside_entry :: bool

definition initial_state :: parser_state where
  "initial_state =
     \<lparr>parsed_entries = [], entry = [], key = None, entry_type = None, inside_entry = False\<rparr>"

definition flush :: "parser_state \<Rightarrow> parser_state" where
  \<comment> \<open>\<^verbatim>\<open>if entry and key: entry['entry_type'] = entry_type;
      parsed_entries.append((key, entry.copy()))\<close>\<close>
  "flush st =
     (case key st of
        None \<Rightarrow> st
      | Some k \<Rightarrow>
          if entry st \<noteq> [] \<and> k \<noteq> [] then
            (let e = AList.update ''entry_type'' (entry_type st) (entry st)
             in st\<lparr>entry := e, parsed_entries := parsed_entries st @ [(k, e)]\<rparr>)
          else st)"

definition field_value :: "string \<Rightarrow> string" where
  \<comment> \<open>\<^verbatim>\<open>value.strip().strip(',').strip('{}').strip()\<close>\<close>
  "field_value rhs = py_strip (strip_chars ''{}'' (strip_chars '','' (py_strip rhs)))"

definition parse_line :: "string \<Rightarrow> parser_state \<Rightarrow> parser_state" where
  \<comment> \<open>one turn of the loop over \<^verbatim>\<open>lines\<close>\<close>
  "parse_line line0 st =
     (let line = py_strip line0
      in if line = [] then st
         else if startswith line ''@'' then
           (let st1 = (flush (st\<lparr>inside_entry := True\<rparr>))\<lparr>entry := []\<rparr>
            in case split_first ''{'' (drop 1 line) of
                 Some (et, rest) \<Rightarrow>
                   st1\<lparr>entry_type := Some et, key := Some (py_strip (split_head '','' rest))\<rparr>
               | None \<Rightarrow> st1\<lparr>entry_type := Some ''article'', key := None\<rparr>)
         else if inside_entry st \<and> py_in ''='' line then
           (case split_first ''='' line of
              Some (field, rhs) \<Rightarrow>
                st\<lparr>entry :=
                     AList.update (py_lower (py_strip field)) (Some (field_value rhs)) (entry st)\<rparr>
            | None \<Rightarrow> st)
         else if inside_entry st \<and> startswith line ''}'' then
           (flush st)\<lparr>entry := [], key := None, entry_type := None, inside_entry := False\<rparr>
         else st)"

definition parse :: "string \<Rightarrow> (string \<times> parsed_entry) list" where
  \<comment> \<open>\<^verbatim>\<open>parsed_entries\<close> after the loop and the last flush\<close>
  "parse txt = parsed_entries (flush (fold parse_line (read_lines txt) initial_state))"

section \<open>Entry form\<close>

text \<open>
  \<^verbatim>\<open>entry_form_gui\<close> builds one text widget per name of \<^verbatim>\<open>BIB_FIELDS\<close>; the nested
  functions \<^verbatim>\<open>update_fields\<close> and \<^verbatim>\<open>save\<close> read and change them.  The globals
  \<^verbatim>\<open>bibtex_info\<close> and \<^verbatim>\<open>BIB_FIELDS\<close> are arguments here, the dialogs are values: an
  error dialog followed by \<^verbatim>\<open>return\<close> is an error result, and the answer to the
  question about missing fields is the argument \<open>confirm\<close>.
\<close>

record schema =
  required :: "string list"
  optional :: "string list"
  description :: string

record bibtex_info =
  entry_types :: "(string \<times> schema) list"
  registry_fields :: "(string \<times> string) list"
    \<comment> \<open>\<^verbatim>\<open>bibtex_info['fields']\<close>: field name and help text\<close>

record widget =
  content :: string
  enabled :: bool
    \<comment> \<open>\<^verbatim>\<open>state\<close> is \<^verbatim>\<open>'normal'\<close> (true) or \<^verbatim>\<open>'disabled'\<close>\<close>

datatype form_mode = Add | Edit

record form =
  mode :: form_mode
  key_arg :: "string option"
    \<comment> \<open>the argument \<^verbatim>\<open>key\<close>\<close>
  show_key :: bool
  key_entry :: string
    \<comment> \<open>the text of \<^verbatim>\<open>key_entry\<close>, which exists when \<^verbatim>\<open>show_key\<close> holds\<close>
  entry_type_var :: string
  widgets :: "(string \<times> widget) list"
    \<comment> \<open>the dictionary \<^verbatim>\<open>fields\<close>, in the order its keys were inserted\<close>

datatype form_error =
  KeyError string
  | Key_required
  | Entry_type_required
  | Duplicate_key
  | Declined "string list"

definition first_name :: "string \<Rightarrow> string" where
  \<comment> \<open>\<^verbatim>\<open>f.replace(' or ', '/').split('/')[0]\<close>\<close>
  "first_name f = split_head ''/'' (py_replace '' or '' ''/'' f)"

definition enabled_names :: "bibtex_info \<Rightarrow> string \<Rightarrow> string set" where
  \<comment> \<open>the union of the sets \<^verbatim>\<open>required\<close> and \<^verbatim>\<open>optional\<close> that \<^verbatim>\<open>update_fields\<close>
      computes for an entry type: the names whose widgets it enables\<close>
  "enabled_names info et =
     (case map_of (entry_types info) et of
        None \<Rightarrow> {}
      | Some sch \<Rightarrow> set (map first_name (required sch)) \<union> set (map first_name (optional sch)))"

definition refresh_widget :: "string set \<Rightarrow> string set \<Rightarrow> string \<Rightarrow> widget \<Rightarrow> widget" where
  \<comment> \<open>the body of the loop of \<^verbatim>\<open>update_fields\<close>; \<^verbatim>\<open>delete\<close> leaves a disabled widget
      as it is\<close>
  "refresh_widget req opt field w =
     (if field \<in> req \<or> field \<in> opt then w\<lparr>enabled := True\<rparr>
      else w\<lparr>content := (if enabled w then [] else content w), enabled := False\<rparr>)"

definition update_fields :: "bibtex_info \<Rightarrow> string list \<Rightarrow> form \<Rightarrow> form_error + form" where
  "update_fields info bib_fields fm =
     (case map_of (entry_types info) (entry_type_var fm) of
        None \<Rightarrow> Inl (KeyError (entry_type_var fm))
      | Some sch \<Rightarrow>
          (let req = set (map first_name (required sch));
               opt = set (map first_name (optional sch))
           in Inr (fm\<lparr>widgets :=
                fold (\<lambda>field fs. AList.map_entry field (refresh_widget req opt field) fs)
                  bib_fields (widgets fm)\<rparr>)))"

definition make_fields :: "string list \<Rightarrow> entry \<Rightarrow> (string \<times> widget) list" where
  \<comment> \<open>the loop that creates the widgets; an absent \<^verbatim>\<open>entry_data\<close> is the empty record\<close>
  "make_fields bib_fields entry_data =
     fold (\<lambda>field fs.
            AList.update field
              \<lparr>content = (case map_of entry_data field of Some v \<Rightarrow> v | None \<Rightarrow> []),
               enabled = True\<rparr> fs)
       bib_fields []"

definition entry_form_gui ::
  "bibtex_info \<Rightarrow> string list \<Rightarrow> form_mode \<Rightarrow> string option \<Rightarrow> entry \<Rightarrow> bool \<Rightarrow>
     form_error + form" where
  \<comment> \<open>the form as it stands when the window opens\<close>
  "entry_form_gui info bib_fields md k entry_data sk =
     (let et = (case map_of entry_data ''entry_type'' of Some t \<Rightarrow> t | None \<Rightarrow> ''article'')
      in update_fields info bib_fields
           \<lparr>mode = md, key_arg = k, show_key = sk,
            key_entry =
              (if md = Edit \<and> k \<noteq> None \<and> k \<noteq> Some [] then the k
               else case map_of entry_data ''key'' of Some v \<Rightarrow> v | None \<Rightarrow> []),
            entry_type_var = et,
            widgets = make_fields bib_fields entry_data\<rparr>)"

datatype event =
  Type_key string
  | Type_field string string
  | Select_type string

definition apply_event :: "bibtex_info \<Rightarrow> string list \<Rightarrow> event \<Rightarrow> form \<Rightarrow> form" where
  \<comment> \<open>what the user can do before pressing a button: replace the text of the key entry or
      of a widget (a disabled widget takes no input), or pick one of \<^verbatim>\<open>BIB_ENTRY_TYPES\<close>
      in the read-only combobox, whose variable is traced by \<^verbatim>\<open>update_fields\<close>\<close>
  "apply_event info bib_fields ev fm =
     (case ev of
        Type_key s \<Rightarrow> (if show_key fm then fm\<lparr>key_entry := s\<rparr> else fm)
      | Type_field f s \<Rightarrow>
          fm\<lparr>widgets :=
               AList.map_entry f (\<lambda>w. if enabled w then w\<lparr>content := s\<rparr> else w) (widgets fm)\<rparr>
      | Select_type t \<Rightarrow>
          (if t \<in> set (map fst (entry_types info)) then
             (case update_fields info bib_fields (fm\<lparr>entry_type_var := t\<rparr>) of
                Inr fm' \<Rightarrow> fm'
              | Inl e \<Rightarrow> fm\<lparr>entry_type_var := t\<rparr>)
           else fm))"

definition required_flat :: "string list \<Rightarrow> string list" where
  "required_flat required_fields =
     map (\<lambda>rf. if py_in '' or '' rf then split_head '' or '' rf
               else if py_in '' and/or '' rf then split_head '' and/or '' rf
               else rf) required_fields"

fun missing_fields :: "(string \<times> widget) list \<Rightarrow> string list \<Rightarrow> form_error + string list" where
  \<comment> \<open>the loop that fills \<^verbatim>\<open>missing\<close>; \<^verbatim>\<open>fields[rf]\<close> raises for a name without widget\<close>
  "missing_fields fs [] = Inr []"
| "missing_fields fs (rf0 # rest) =
     (let rf = py_strip rf0
      in if rf = ''key'' then missing_fields fs rest
         else case map_of fs rf of
                None \<Rightarrow> Inl (KeyError rf)
              | Some w \<Rightarrow>
                  (case missing_fields fs rest of
                     Inl e \<Rightarrow> Inl e
                   | Inr missing \<Rightarrow>
                       Inr (if py_strip (content w) = [] then rf # missing else missing)))"

definition validate ::
  "bibtex_info \<Rightarrow> (string \<times> widget) list \<Rightarrow> string \<Rightarrow> form_error + string list" where
  \<comment> \<open>the first part of \<^verbatim>\<open>save\<close>: the list \<^verbatim>\<open>missing\<close> for the field values of the form\<close>
  "validate info fs et =
     (case map_of (entry_types info) et of
        None \<Rightarrow> Inl (KeyError et)
      | Some sch \<Rightarrow> missing_fields fs (required_flat (required sch)))"

definition new_entry :: "(string \<times> widget) list \<Rightarrow> string \<Rightarrow> entry" where
  \<comment> \<open>the dictionary comprehension of \<^verbatim>\<open>save\<close> and the assignment of \<^verbatim>\<open>entry_type\<close>\<close>
  "new_entry fs et =
     AList.update ''entry_type'' et
       (map (\<lambda>(f, w). (f, content w)) (filter (\<lambda>(f, w). content w \<noteq> [] \<and> enabled w) fs))"

definition save ::
  "bibtex_info \<Rightarrow> (string \<times> entry) list \<Rightarrow> form \<Rightarrow> bool \<Rightarrow> form_error + (string \<times> entry)" where
  \<comment> \<open>\<open>Inr (new_key, new_entry)\<close> is the call \<^verbatim>\<open>on_save(new_key, new_entry)\<close>\<close>
  "save info db fm confirm =
     (let new_key = (if show_key fm then py_strip (key_entry fm)
                     else case key_arg fm of Some k \<Rightarrow> k | None \<Rightarrow> []);
          et = py_strip (entry_type_var fm)
      in case validate info (widgets fm) et of
           Inl e \<Rightarrow> Inl e
         | Inr missing \<Rightarrow>
             if show_key fm \<and> new_key = [] then Inl Key_required
             else if et = [] then Inl Entry_type_required
             else if mode fm = Add \<and> show_key fm \<and> map_of db new_key \<noteq> None
               then Inl Duplicate_key
             else if missing \<noteq> [] \<and> \<not> confirm then Inl (Declined missing)
             else Inr (new_key, new_entry (widgets fm) et))"

definition add_entry_gui ::
  "bibtex_info \<Rightarrow> string list \<Rightarrow> (string \<times> entry) list \<Rightarrow> event list \<Rightarrow> bool \<Rightarrow>
     (form_error + (string \<times> entry)) \<times> (string \<times> entry) list" where
  \<comment> \<open>the add form is opened, the user fills it in and presses the save button once; the
      result is what \<^verbatim>\<open>save\<close> did and the store afterwards (\<^verbatim>\<open>on_save\<close> assigns
      \<^verbatim>\<open>db[new_key] = new_entry\<close>)\<close>
  "add_entry_gui info bib_fields db evs confirm =
     (case entry_form_gui info bib_fields Add None [] True of
        Inl e \<Rightarrow> (Inl e, db)
      | Inr fm0 \<Rightarrow>
          (case save info db (fold (apply_event info bib_fields) evs fm0) confirm of
             Inl e \<Rightarrow> (Inl e, db)
           | Inr (new_key, ne) \<Rightarrow> (Inr (new_key, ne), AList.update new_key ne db)))"

text \<open>
  What holds of a form from the moment it opens: its widgets have distinct names, all of
  them names of \<^verbatim>\<open>BIB_FIELDS\<close>, the selected entry type is registered, and an enabled
  widget belongs to a name that \<^verbatim>\<open>update_fields\<close> enables for it.
\<close>

definition form_ok :: "bibtex_info \<Rightarrow> string list \<Rightarrow> form \<Rightarrow> bool" where
  "form_ok info bib_fields fm \<longleftrightarrow>
     distinct (map fst (widgets fm)) \<and>
     fst ` set (widgets fm) \<subseteq> set bib_fields \<and>
     map_of (entry_types info) (entry_type_var fm) \<noteq> None \<and>
     (\<forall>f w. map_of (widgets fm) f = Some w \<longrightarrow> enabled w \<longrightarrow>
        f \<in> enabled_names info (entry_type_var fm))"

text \<open>
  A schema for the examples: the article of the specification's example, which requires a
  title, a journal and a year, and two entry types whose requirements have alternatives.
\<close>

definition example_info :: bibtex_info where
  "example_info =
     \<lparr>entry_types =
        [(''article'',
          \<lparr>required = [''title'', ''journal'', ''year''], optional = [''note''],
           description = ''An article from a journal''\<rparr>),
         (''book'',
          \<lparr>required = [''author or editor'', ''title'', ''publisher'', ''year''],
           optional = [''note''], description = ''A book with a publisher''\<rparr>),
         (''inbook'',
          \<lparr>required = [''author or editor'', ''title'', ''chapter and/or pages'',
                       ''publisher'', ''year''],
           optional = [''note''], description = ''A part of a book''\<rparr>)],
      registry_fields =
        [(''author'', ''Author''), (''editor'', ''Editor''), (''title'', ''Title''),
         (''journal'', ''Journal''), (''year'', ''Year''), (''chapter'', ''Chapter''),
         (''pages'', ''Pages''), (''publisher'', ''Publisher''), (''note'', ''Note'')]\<rparr>"

text \<open>
  Schemas for further examples, given as entry-type names with their required and optional
  requirements.
\<close>

definition small_info :: "(string \<times> string list \<times> string list) list \<Rightarrow> bibtex_info" where
  "small_info ts =
     \<lparr>entry_types =
        map (\<lambda>(t, req, opt). (t, \<lparr>required = req, optional = opt, description = []\<rparr>)) ts,
      registry_fields = []\<rparr>"

section \<open>Requirements in the notation of the specification\<close>

text \<open>
  The specification writes a requirement as one field name or as alternative field names
  separated by \<^verbatim>\<open>" or "\<close> or \<^verbatim>\<open>" and/or "\<close>.  \<open>spec_alternatives\<close> reads the
  alternatives off a requirement in that notation, from left to right, independently of
  the two readings the program has (\<open>first_name\<close> and \<open>required_flat\<close>).  A field is
  applicable to an entry type when it is one of the alternatives of a required or optional
  requirement of the type.
\<close>

function alternatives_from :: "string \<Rightarrow> string \<Rightarrow> string list" where
  "alternatives_from cur s =
     (if s = [] then [cur]
      else if startswith s '' and/or '' then cur # alternatives_from [] (drop 8 s)
      else if startswith s '' or '' then cur # alternatives_from [] (drop 4 s)
      else alternatives_from (cur @ [hd s]) (tl s))"
  by pat_completeness auto
termination
  by (relation "measure (\<lambda>(cur, s). length s)") auto

declare alternatives_from.simps [simp del]

definition spec_alternatives :: "string \<Rightarrow> string list" where
  "spec_alternatives q = alternatives_from [] q"

definition first_alternative :: "string \<Rightarrow> string" where
  "first_alternative q = hd (spec_alternatives q)"

definition spec_applicable :: "bibtex_info \<Rightarrow> string \<Rightarrow> string \<Rightarrow> bool" where
  "spec_applicable info et f \<longleftrightarrow>
     (case map_of (entry_types info) et of
        None \<Rightarrow> False
      | Some sch \<Rightarrow>
          list_ex (\<lambda>q. f \<in> set (spec_alternatives q)) (required sch @ optional sch))"

definition validate_record ::
  "bibtex_info \<Rightarrow> string list \<Rightarrow> entry \<Rightarrow> form_error + string list" where
  \<comment> \<open>the validator on a record: the form is opened on the record, as the import review
      and the edit form open it, and \<^verbatim>\<open>save\<close> scans the required fields of the record's
      entry type\<close>
  "validate_record info bib_fields r =
     (case entry_form_gui info bib_fields Add None r True of
        Inl e \<Rightarrow> Inl e
      | Inr fm \<Rightarrow> validate info (widgets fm) (py_strip (entry_type_var fm)))"

section \<open>Texts that survive the round trip\<close>

text \<open>
  The conditions under which the importer reads back what the serializer wrote: no line
  break inside a line, a field name that the importer's strip and lowercase leave alone,
  and a value whose ends the four strips leave alone.
\<close>

definition no_line_break :: "string \<Rightarrow> bool" where
  "no_line_break s \<longleftrightarrow> CHR 0x0A \<notin> set s \<and> CHR 0x0D \<notin> set s"

definition plain_field :: "string \<Rightarrow> bool" where
  "plain_field f \<longleftrightarrow>
     py_strip f = f \<and> py_lower f = f \<and> CHR ''='' \<notin> set f \<and> no_line_break f \<and>
     \<not> startswith f ''@''"

definition plain_value :: "string \<Rightarrow> bool" where
  "plain_value v \<longleftrightarrow> py_strip v = v \<and> strip_chars ''{}'' v = v \<and> no_line_break v"

definition is_line_of :: "entry \<Rightarrow> string \<Rightarrow> string \<Rightarrow> bool" where
  \<comment> \<open>\<open>l\<close> is the line the serializer writes for the field \<open>f\<close> of \<open>r\<close>, with or without
      its comma\<close>
  "is_line_of r l f \<longleftrightarrow>
     (\<exists>v. map_of r f = Some v \<and>
        (l = field_line f v \<or> l = rstrip_chars '','' (field_line f v)))"

section \<open>Facts about the string functions\<close>

lemma rstrip_chars_append:
  "rstrip_chars cs (a @ b) =
     (if rstrip_chars cs b = [] then rstrip_chars cs a else a @ rstrip_chars cs b)"
  by (auto simp: rstrip_chars_def dropWhile_append dropWhile_eq_Nil_conv)

lemma rstrip_chars_Cons_keep:
  "c \<notin> set cs \<Longrightarrow> rstrip_chars cs (c # s) = c # rstrip_chars cs s"
  using rstrip_chars_append [of cs "[c]" s]
  by (simp add: rstrip_chars_def)

lemma rstrip_chars_snoc_drop:
  "c \<in> set cs \<Longrightarrow> rstrip_chars cs (s @ [c]) = rstrip_chars cs s"
  by (simp add: rstrip_chars_def)

lemma rstrip_chars_id:
  "s = [] \<or> last s \<notin> set cs \<Longrightarrow> rstrip_chars cs s = s"
  by (cases s rule: rev_cases) (auto simp: rstrip_chars_def)

lemma py_in_Nil: "py_in [] s"
  by (cases s) (simp_all add: startswith_def)

section \<open>The canonical field list\<close>

lemma dedup_set: "set (dedup seen xs) = set xs - seen"
  by (induction xs arbitrary: seen) auto

lemma dedup_distinct: "distinct (dedup seen xs)"
  by (induction xs arbitrary: seen) (auto simp: dedup_set)

lemma load_bibtex_fields_ordered:
  "field_order \<noteq> [] \<Longrightarrow>
     load_bibtex_fields registry field_order =
       dedup {} (filter (\<lambda>f. f \<in> set registry) field_order)"
  by (simp add: load_bibtex_fields_def Let_def filter_id_conv)

text \<open>
  C3.  The deduplication keeps first occurrences and the listed registered fields come in
  the order of \<^verbatim>\<open>field_order\<close>, but the registered fields that \<^verbatim>\<open>field_order\<close> does not
  name are not appended: with the registry \<^verbatim>\<open>author, title, year\<close> and the setting
  \<^verbatim>\<open>["title"]\<close> the canonical list is \<^verbatim>\<open>["title"]\<close> alone.
\<close>

theorem load_bibtex_fields_drops_unlisted:
  "load_bibtex_fields [''author'', ''title'', ''year''] [''title''] = [''title'']"
  by (simp add: load_bibtex_fields_def)

section \<open>The serializer's last line\<close>

lemma header_rstrip:
  "rstrip_chars '','' (''@'' @ et @ ''{'' @ k @ '','') = ''@'' @ et @ ''{'' @ rstrip_chars '','' k"
proof -
  have "rstrip_chars '','' ((''@'' @ et) @ (CHR ''{'' # (k @ '',''))) =
          (''@'' @ et) @ rstrip_chars '','' (CHR ''{'' # (k @ '',''))"
    by (subst rstrip_chars_append) (simp add: rstrip_chars_Cons_keep)
  moreover have "rstrip_chars '','' (k @ '','') = rstrip_chars '','' k"
    by (rule rstrip_chars_snoc_drop) simp
  ultimately show ?thesis
    by (simp add: rstrip_chars_Cons_keep)
qed

lemma field_lines_none:
  "\<forall>f\<in>set fo. map_of r f = None \<Longrightarrow> field_lines r fo = []"
  by (induction fo) auto

lemma list_update_last:
  "ls \<noteq> [] \<Longrightarrow> ls[length ls - 1 := x] = butlast ls @ [x]"
  by (induction ls rule: rev_induct) (auto simp: list_update_append)

lemma bibtex_lines_last:
  "bibtex_lines et k r fo =
     butlast ((''@'' @ et @ ''{'' @ k @ '','') # field_lines r fo) @
       [rstrip_chars '','' (last ((''@'' @ et @ ''{'' @ k @ '','') # field_lines r fo)), ''}'']"
  unfolding bibtex_lines_def Let_def
  by (subst list_update_last) (simp_all add: last_conv_nth)

text \<open>
  C10, as the code has it.  The comma stripping is \<^verbatim>\<open>rstrip(',')\<close> on the last emitted
  line, whichever it is.  When the record has no field of the field order, that line is the
  header, and every trailing comma goes: the key's own trailing commas too.  The output is
  then the header without them and the closing brace; it is \<^verbatim>\<open>@<entryType>{<key>\<close> when
  the key does not end with a comma.
\<close>

theorem serialize_without_fields:
  "bibtex_lines et k r field_order =
     butlast ((''@'' @ et @ ''{'' @ k @ '','') # field_lines r field_order) @
       [rstrip_chars '','' (last ((''@'' @ et @ ''{'' @ k @ '','') # field_lines r field_order)),
        ''}''] \<and>
   ((\<forall>f\<in>set field_order. map_of r f = None) \<longrightarrow>
      bibtex_lines et k r field_order = [''@'' @ et @ ''{'' @ rstrip_chars '','' k, ''}''] \<and>
      serialize k r et field_order = ''@'' @ et @ ''{'' @ rstrip_chars '','' k @ CHR 0x0A # ''}'' \<and>
      (k = [] \<or> last k \<noteq> CHR '','' \<longrightarrow>
         bibtex_lines et k r field_order = [''@'' @ et @ ''{'' @ k, ''}'']))"
proof (intro conjI impI)
  show "bibtex_lines et k r field_order =
     butlast ((''@'' @ et @ ''{'' @ k @ '','') # field_lines r field_order) @
       [rstrip_chars '','' (last ((''@'' @ et @ ''{'' @ k @ '','') # field_lines r field_order)),
        ''}'']"
    by (rule bibtex_lines_last)
next
  assume none: "\<forall>f\<in>set field_order. map_of r f = None"
  show l: "bibtex_lines et k r field_order = [''@'' @ et @ ''{'' @ rstrip_chars '','' k, ''}'']"
    using header_rstrip [of et k]
    by (simp add: bibtex_lines_def field_lines_none [OF none])
  show "serialize k r et field_order = ''@'' @ et @ ''{'' @ rstrip_chars '','' k @ CHR 0x0A # ''}''"
    by (simp add: serialize_def l)
  assume "k = [] \<or> last k \<noteq> CHR '',''"
  then show "bibtex_lines et k r field_order = [''@'' @ et @ ''{'' @ k, ''}'']"
    using l rstrip_chars_id [of k "'',''"] by auto
qed

theorem serialize_without_fields_witness:
  "bibtex_lines ''article'' ''k1'' [(''title'', ''Foo'')] [''year''] = [''@article{k1'', ''}''] \<and>
   serialize ''k1'' [(''title'', ''Foo'')] ''article'' [''year''] = ''@article{k1'' @ CHR 0x0A # ''}''"
  using serialize_without_fields [of "''article''" "''k1''" "[(''title'', ''Foo'')]" "[''year'']"]
  by (simp add: rstrip_chars_def)

theorem serialize_key_with_comma_counterexample:
  "bibtex_lines ''article'' ''k1,'' [(''title'', ''Foo'')] [] = [''@article{k1'', ''}''] \<and>
   bibtex_lines ''article'' ''k1,'' [(''title'', ''Foo'')] [] \<noteq> [''@'' @ ''article'' @ ''{'' @ ''k1,'', ''}'']"
  by (simp add: bibtex_lines_def rstrip_chars_def)

section \<open>The match engine\<close>

lemma match_value_flags:
  "match_value re_search ratio modes t q v = Inr (m, p) \<Longrightarrow>
     p = (''fuzzy'' \<in> set modes \<and> t \<le> ratio (py_lower v) (py_lower q)) \<and> (p \<longrightarrow> m)"
  unfolding match_value_def Let_def
  by (simp split: sum.splits if_splits)

lemma match_value_returns:
  "''regex'' \<notin> set modes \<or> re_search q v \<noteq> Other_exception \<Longrightarrow>
     \<exists>m p. match_value re_search ratio modes t q v = Inr (m, p)"
  unfolding match_value_def Let_def
  by (cases "re_search q v"; simp split: sum.splits if_splits; blast)

text \<open>
  C4.  With the fuzzy mode alone the verdict is the comparison \<open>t \<le> ratio\<close> of the
  lowercased value and query, equality included, and the preview is the value exactly when
  the verdict is true.  With any set of modes, whenever the engine returns, the preview is
  the value if the fuzzy mode is enabled and its comparison holds (the verdict is then
  true, whatever the other modes found), and it is empty otherwise.
\<close>

theorem matches_fuzzy:
  "matches re_search ratio v q [''fuzzy''] t =
     Inr (t \<le> ratio (py_lower v) (py_lower q),
          if t \<le> ratio (py_lower v) (py_lower q) then v else []) \<and>
   (\<forall>modes. ''regex'' \<notin> set modes \<or> re_search q v \<noteq> Other_exception \<longrightarrow>
     (\<exists>m. matches re_search ratio v q modes t =
            Inr (m, if ''fuzzy'' \<in> set modes \<and> t \<le> ratio (py_lower v) (py_lower q)
                    then v else []) \<and>
         (''fuzzy'' \<in> set modes \<and> t \<le> ratio (py_lower v) (py_lower q) \<longrightarrow> m)))"
proof (intro conjI allI impI)
  show "matches re_search ratio v q [''fuzzy''] t =
     Inr (t \<le> ratio (py_lower v) (py_lower q),
          if t \<le> ratio (py_lower v) (py_lower q) then v else [])"
    by (simp add: matches_def match_value_def)
next
  fix modes
  assume "''regex'' \<notin> set modes \<or> re_search q v \<noteq> Other_exception"
  then obtain m p where mv: "match_value re_search ratio modes t q v = Inr (m, p)"
    using match_value_returns by blast
  from match_value_flags [OF mv]
  have p: "p = (''fuzzy'' \<in> set modes \<and> t \<le> ratio (py_lower v) (py_lower q))" and pm: "p \<longrightarrow> m"
    by simp_all
  show "\<exists>m. matches re_search ratio v q modes t =
            Inr (m, if ''fuzzy'' \<in> set modes \<and> t \<le> ratio (py_lower v) (py_lower q)
                    then v else []) \<and>
         (''fuzzy'' \<in> set modes \<and> t \<le> ratio (py_lower v) (py_lower q) \<longrightarrow> m)"
    using p pm by (intro exI [of _ m]) (simp add: matches_def mv)
qed

theorem matches_fuzzy_witness:
  "matches (\<lambda>q v. Re_error) (\<lambda>a b. if a = b then 1 else 0) ''Foo'' ''foo''
     [''regex'', ''fuzzy''] 1 = Inr (True, ''Foo'')"
proof -
  have l: "py_lower ''Foo'' = ''foo''" "py_lower ''foo'' = ''foo''"
    by code_simp+
  note th = matches_fuzzy [of "\<lambda>q v. Re_error" "\<lambda>a b. if a = b then 1 else 0"
        "''Foo''" "''foo''" 1, THEN conjunct2, THEN spec, of "[''regex'', ''fuzzy'']", THEN mp]
  have "\<exists>m. matches (\<lambda>q v. Re_error) (\<lambda>a b. if a = b then 1 else 0) ''Foo'' ''foo''
           [''regex'', ''fuzzy''] 1 =
         Inr (m, if ''fuzzy'' \<in> set [''regex'', ''fuzzy''] \<and>
                    (1 :: real) \<le> (if py_lower ''Foo'' = py_lower ''foo'' then 1 else 0)
                 then ''Foo'' else []) \<and>
         (''fuzzy'' \<in> set [''regex'', ''fuzzy''] \<and>
            (1 :: real) \<le> (if py_lower ''Foo'' = py_lower ''foo'' then 1 else 0) \<longrightarrow> m)"
    by (rule th) simp
  then obtain m where
    "matches (\<lambda>q v. Re_error) (\<lambda>a b. if a = b then 1 else 0) ''Foo'' ''foo''
           [''regex'', ''fuzzy''] 1 = Inr (m, ''Foo'')" and "m"
    by (auto simp: l)
  then show ?thesis
    by simp
qed

text \<open>
  C5.  An empty query under \<^verbatim>\<open>contains\<close> matches every value, under \<^verbatim>\<open>exact\<close> it
  matches the empty value only, and with no mode enabled nothing matches.
\<close>

theorem matches_edge_cases:
  "matches re_search ratio v [] [''contains''] t = Inr (True, []) \<and>
   matches re_search ratio v [] [''exact''] t = Inr (v = [], []) \<and>
   matches re_search ratio v q [] t = Inr (False, [])"
  by (simp add: matches_def match_value_def py_in_Nil py_lower_def)


text \<open>
  The regular-expression mode.  A pattern for which the library raises \<^verbatim>\<open>re.error\<close>
  counts as no match: the verdict is the one the other enabled modes give.
\<close>

lemma regex_error_not_a_match:
  "re_search q v = Re_error \<Longrightarrow>
     match_value re_search ratio modes t q v =
       match_value re_search ratio (removeAll ''regex'' modes) t q v"
  by (simp add: match_value_def)

text \<open>
  C7.  The handler names \<^verbatim>\<open>re.error\<close> only.  When the library raises an exception of
  another class for the query (\<^verbatim>\<open>OverflowError\<close> for a repetition count that is too
  large, as in \<^verbatim>\<open>a{4294967296}\<close>), the search raises it at the first record and returns
  no result.
\<close>

theorem regex_exception_propagates:
  "re_search q (case map_of r field of Some v \<Rightarrow> v | None \<Rightarrow> []) = Other_exception \<Longrightarrow>
   ''regex'' \<in> set modes \<Longrightarrow>
     search re_search ratio ((k, r) # db) field q modes t = Inl Uncaught_exception"
  by (simp add: search_def match_value_def)

theorem regex_exception_propagates_witness:
  "search (\<lambda>q v. if q = ''a{4294967296}'' then Other_exception else No_match) (\<lambda>a b. 0)
     [(''k1'', [(''title'', ''Foo'')])] ''title'' ''a{4294967296}'' [''regex''] (8 / 10) =
   Inl Uncaught_exception"
  using regex_exception_propagates [of "\<lambda>q v. if q = ''a{4294967296}'' then Other_exception else No_match"
      "''a{4294967296}''" "[(''title'', ''Foo'')]" "''title''" "[''regex'']" "\<lambda>a b. 0" "''k1''" "[]" "8 / 10"]
  by simp

section \<open>The importer's field lines\<close>

lemma startswith_single: "startswith (x # s) [c] \<longleftrightarrow> x = c"
  by (simp add: startswith_def)

lemma split_first_single:
  "c \<notin> set a \<Longrightarrow> split_first [c] (a @ c # b) = Some (a, b)"
  by (induction a) (auto simp: startswith_single)

lemma py_in_single: "py_in [c] s \<longleftrightarrow> c \<in> set s"
  by (induction s) (auto simp: startswith_single startswith_def)

lemma strip_chars_decomp:
  "\<exists>p q. s = p @ strip_chars cs s @ q \<and> set p \<subseteq> set cs \<and> set q \<subseteq> set cs"
proof -
  let ?P = "\<lambda>c. c \<in> set cs"
  let ?t = "dropWhile ?P s"
  have 1: "s = takeWhile ?P s @ ?t"
    by simp
  have 2: "?t = rev (dropWhile ?P (rev ?t)) @ rev (takeWhile ?P (rev ?t))"
    by (metis rev_append rev_rev_ident takeWhile_dropWhile_id)
  have 3: "set (takeWhile ?P s) \<subseteq> set cs" "set (rev (takeWhile ?P (rev ?t))) \<subseteq> set cs"
    by (auto dest: set_takeWhileD)
  have "s = takeWhile ?P s @ strip_chars cs s @ rev (takeWhile ?P (rev ?t))"
    using 1 2 by (simp add: strip_chars_def lstrip_chars_def rstrip_chars_def)
  with 3 show ?thesis
    by blast
qed

lemma strip_chars_ends:
  assumes "strip_chars cs s \<noteq> []"
  shows "hd (strip_chars cs s) \<notin> set cs \<and> last (strip_chars cs s) \<notin> set cs"
proof -
  let ?P = "\<lambda>c. c \<in> set cs"
  let ?t = "dropWhile ?P s"
  let ?u = "dropWhile ?P (rev ?t)"
  have u: "strip_chars cs s = rev ?u"
    by (simp add: strip_chars_def lstrip_chars_def rstrip_chars_def)
  with assms have une: "?u \<noteq> []" by simp
  then have "\<not> ?P (hd ?u)"
    by (rule hd_dropWhile)
  then have l: "last (strip_chars cs s) \<notin> set cs"
    using une by (simp add: u last_rev)
  have tne: "?t \<noteq> []"
    using une by (cases "?t") simp_all
  then have h: "\<not> ?P (hd ?t)"
    by (rule hd_dropWhile)
  obtain q where q: "?t = rev ?u @ q"
    by (metis rev_append rev_rev_ident takeWhile_dropWhile_id)
  then have "hd ?t = hd (rev ?u)"
    using une by (metis hd_append2 rev_is_Nil_conv)
  with h have "hd (strip_chars cs s) \<notin> set cs"
    by (simp add: u)
  with l show ?thesis by simp
qed

lemma parse_line_assignment:
  assumes "inside_entry st"
    and "py_strip line0 = raw @ CHR ''='' # rhs"
    and "CHR ''='' \<notin> set raw"
    and "\<not> startswith (py_strip line0) ''@''"
  shows "parse_line line0 st =
     st\<lparr>entry := AList.update (py_lower (py_strip raw))
              (Some (py_strip (strip_chars ''{}'' (strip_chars '','' (py_strip rhs)))))
              (entry st)\<rparr>"
proof -
  have "split_first ''='' (py_strip line0) = Some (raw, rhs)"
    using assms(2,3) by (simp add: split_first_single)
  moreover have "py_in ''='' (py_strip line0)"
    using assms(2) by (simp add: py_in_single)
  moreover have "py_strip line0 \<noteq> []"
    using assms(2) by simp
  ultimately show ?thesis
    using assms(1,4) by (simp add: parse_line_def Let_def field_value_def)
qed

lemma parse_line_at_sign:
  assumes "startswith (py_strip line0) ''@''"
  shows "parse_line line0 st =
     \<lparr>parsed_entries = parsed_entries (flush st), entry = [],
      key = (case split_first ''{'' (drop 1 (py_strip line0)) of
               Some (et, rest) \<Rightarrow> Some (py_strip (split_head '','' rest))
             | None \<Rightarrow> None),
      entry_type = (case split_first ''{'' (drop 1 (py_strip line0)) of
                      Some (et, rest) \<Rightarrow> Some et
                    | None \<Rightarrow> Some ''article''),
      inside_entry = True\<rparr>"
proof -
  have "py_strip line0 \<noteq> []"
    using assms by (auto simp: startswith_def)
  with assms show ?thesis
    by (simp add: parse_line_def Let_def flush_def split: option.splits)
qed

text \<open>
  The two entries of the specification's example text are read as two records.
\<close>

lemma parse_two_entries:
  "parse (''@article{k1,'' @ [CHR 0x0A] @ ''  title = {Foo},'' @ [CHR 0x0A] @ ''}'' @ [CHR 0x0A] @
          ''@book{k2,'' @ [CHR 0x0A] @ ''  author = {Bar},'' @ [CHR 0x0A] @ ''}'') =
     [(''k1'', [(''title'', Some ''Foo''), (''entry_type'', Some ''article'')]),
      (''k2'', [(''author'', Some ''Bar''), (''entry_type'', Some ''book'')])]"
  by code_simp

text \<open>
  C2, as the code has it.  A line that is read inside an entry, does not begin with \<^verbatim>\<open>@\<close>
  once stripped, and contains \<^verbatim>\<open>=\<close> is cut at its first \<^verbatim>\<open>=\<close>.  The field name is the
  left part, stripped and lowercased.  The value is the right part after four strips in a
  row: whitespace, then every leading and trailing comma, then every leading and trailing
  brace of either kind, then whitespace again (\<open>strip_chars_decomp\<close> and
  \<open>strip_chars_ends\<close> say what a strip removes).  The right part \<^verbatim>\<open>{{X}},\<close> gives \<^verbatim>\<open>X\<close>.
  A line that begins with \<^verbatim>\<open>@\<close> once stripped starts a new entry, whether or not it
  contains \<^verbatim>\<open>=\<close> and whatever the state: the entry read so far is flushed, the record
  under construction is emptied, and the entry type and the key are read off the header
  (the entry type \<^verbatim>\<open>article\<close> and no key when the line has no \<^verbatim>\<open>{\<close>).
\<close>

theorem parse_line_field:
  "(inside_entry st \<and> py_strip line0 = raw @ CHR ''='' # rhs \<and> CHR ''='' \<notin> set raw \<and>
    \<not> startswith (py_strip line0) ''@'' \<longrightarrow>
      parse_line line0 st =
        st\<lparr>entry := AList.update (py_lower (py_strip raw))
                 (Some (py_strip (strip_chars ''{}'' (strip_chars '','' (py_strip rhs)))))
                 (entry st)\<rparr>) \<and>
   (startswith (py_strip line0) ''@'' \<longrightarrow>
      parse_line line0 st =
        \<lparr>parsed_entries = parsed_entries (flush st), entry = [],
         key = (case split_first ''{'' (drop 1 (py_strip line0)) of
                  Some (et, rest) \<Rightarrow> Some (py_strip (split_head '','' rest))
                | None \<Rightarrow> None),
         entry_type = (case split_first ''{'' (drop 1 (py_strip line0)) of
                         Some (et, rest) \<Rightarrow> Some et
                       | None \<Rightarrow> Some ''article''),
         inside_entry = True\<rparr>)"
proof (intro conjI impI)
  assume "inside_entry st \<and> py_strip line0 = raw @ CHR ''='' # rhs \<and> CHR ''='' \<notin> set raw \<and>
    \<not> startswith (py_strip line0) ''@''"
  then have "inside_entry st" "py_strip line0 = raw @ CHR ''='' # rhs" "CHR ''='' \<notin> set raw"
    "\<not> startswith (py_strip line0) ''@''"
    by blast+
  then show "parse_line line0 st =
        st\<lparr>entry := AList.update (py_lower (py_strip raw))
                 (Some (py_strip (strip_chars ''{}'' (strip_chars '','' (py_strip rhs)))))
                 (entry st)\<rparr>"
    by (rule parse_line_assignment)
next
  assume "startswith (py_strip line0) ''@''"
  then show "parse_line line0 st =
        \<lparr>parsed_entries = parsed_entries (flush st), entry = [],
         key = (case split_first ''{'' (drop 1 (py_strip line0)) of
                  Some (et, rest) \<Rightarrow> Some (py_strip (split_head '','' rest))
                | None \<Rightarrow> None),
         entry_type = (case split_first ''{'' (drop 1 (py_strip line0)) of
                         Some (et, rest) \<Rightarrow> Some et
                       | None \<Rightarrow> Some ''article''),
         inside_entry = True\<rparr>"
    by (rule parse_line_at_sign)
qed

theorem parse_line_field_witness:
  "parse_line ''  Title = {{X}},''
     \<lparr>parsed_entries = [], entry = [], key = Some ''k1'', entry_type = Some ''article'',
      inside_entry = True\<rparr> =
   \<lparr>parsed_entries = [], entry = [(''title'', Some ''X'')], key = Some ''k1'',
    entry_type = Some ''article'', inside_entry = True\<rparr> \<and>
   parse_line ''@misc{k2, note = {x}}''
     \<lparr>parsed_entries = [], entry = [(''title'', Some ''X'')], key = Some ''k1'',
      entry_type = Some ''article'', inside_entry = True\<rparr> =
   \<lparr>parsed_entries = [(''k1'', [(''title'', Some ''X''), (''entry_type'', Some ''article'')])],
    entry = [], key = Some ''k2'', entry_type = Some ''misc'', inside_entry = True\<rparr>"
proof -
  let ?st = "\<lparr>parsed_entries = [], entry = [], key = Some ''k1'', entry_type = Some ''article'',
      inside_entry = True\<rparr>"
  let ?held = "\<lparr>parsed_entries = [], entry = [(''title'', Some ''X'')], key = Some ''k1'',
      entry_type = Some ''article'', inside_entry = True\<rparr>"
  have 1: "py_strip ''  Title = {{X}},'' = ''Title '' @ CHR ''='' # '' {{X}},''"
    by code_simp
  have 2: "\<not> startswith (py_strip ''  Title = {{X}},'') ''@''"
    by code_simp
  have 3: "py_lower (py_strip ''Title '') = ''title''"
    by code_simp
  have 4: "py_strip (strip_chars ''{}'' (strip_chars '','' (py_strip '' {{X}},''))) = ''X''"
    by code_simp
  have 5: "startswith (py_strip ''@misc{k2, note = {x}}'') ''@''"
    by code_simp
  have 6: "split_first ''{'' (drop (Suc 0) (py_strip ''@misc{k2, note = {x}}'')) =
             Some (''misc'', ''k2, note = {x}}'')"
    by code_simp
  have 7: "py_strip (split_head '','' ''k2, note = {x}}'') = ''k2''"
    by code_simp
  have 8: "parsed_entries (flush ?held) =
             [(''k1'', [(''title'', Some ''X''), (''entry_type'', Some ''article'')])]"
    by code_simp
  have "parse_line ''  Title = {{X}},'' ?st =
          \<lparr>parsed_entries = [], entry = [(''title'', Some ''X'')], key = Some ''k1'',
           entry_type = Some ''article'', inside_entry = True\<rparr>"
    using parse_line_field [of ?st "''  Title = {{X}},''" "''Title ''" "'' {{X}},''"] 1 2
    by (simp add: 3 4)
  moreover have "parse_line ''@misc{k2, note = {x}}'' ?held =
      \<lparr>parsed_entries = [(''k1'', [(''title'', Some ''X''), (''entry_type'', Some ''article'')])],
       entry = [], key = Some ''k2'', entry_type = Some ''misc'', inside_entry = True\<rparr>"
    using parse_line_field [of ?held "''@misc{k2, note = {x}}''"] 5
    by (simp add: 6 7 8)
  ultimately show ?thesis
    by (rule conjI)
qed

theorem field_value_counterexample:
  "field_value ''{{X}},'' = ''X'' \<and> field_value ''{{X}},'' \<noteq> ''{X}'' \<and>
   entry (parse_line ''title = {{X}},''
     \<lparr>parsed_entries = [], entry = [], key = Some ''k1'', entry_type = Some ''article'',
      inside_entry = True\<rparr>) = [(''title'', Some ''X'')] \<and>
   entry (parse_line ''@comment{a = b}''
     \<lparr>parsed_entries = [], entry = [(''title'', Some ''X'')], key = Some ''k1'',
      entry_type = Some ''article'', inside_entry = True\<rparr>) = []"
  by code_simp

section \<open>The readings of a requirement\<close>

text \<open>
  How the alternatives in the notation of the specification relate to the name that
  \<^verbatim>\<open>update_fields\<close> enables (\<open>first_name\<close>) and to the name that \<^verbatim>\<open>save\<close> scans
  (\<open>required_flat\<close>).
\<close>

lemma alternatives_from_Nil: "alternatives_from cur [] = [cur]"
  by (simp add: alternatives_from.simps)

lemma startswith_hd: "startswith s p \<Longrightarrow> p \<noteq> [] \<Longrightarrow> s \<noteq> [] \<and> hd s = hd p"
  by (cases s; cases p) (auto simp: startswith_def)

lemma startswith_split: "startswith s p \<Longrightarrow> s = p @ drop (length p) s"
  by (metis append_take_drop_id startswith_def)

lemma alternatives_from_plain:
  "CHR '' '' \<notin> set f \<Longrightarrow> alternatives_from cur (f @ rest) = alternatives_from (cur @ f) rest"
proof (induction f arbitrary: cur)
  case Nil
  then show ?case by simp
next
  case (Cons c f)
  then have c: "c \<noteq> CHR '' ''" and f: "CHR '' '' \<notin> set f"
    by auto
  have "\<not> startswith ((c # f) @ rest) '' and/or ''" "\<not> startswith ((c # f) @ rest) '' or ''"
    using c by (auto dest: startswith_hd)
  then have "alternatives_from cur ((c # f) @ rest) = alternatives_from (cur @ [c]) (f @ rest)"
    by (subst alternatives_from.simps) simp
  with Cons.IH [OF f, of "cur @ [c]"] show ?case
    by simp
qed

lemma alternatives_from_or:
  "alternatives_from cur ('' or '' @ b) = cur # alternatives_from [] b"
  by (subst alternatives_from.simps) (simp add: startswith_def)

lemma alternatives_from_slash:
  "alternatives_from cur (CHR ''/'' # b) = alternatives_from (cur @ ''/'') b"
  by (subst alternatives_from.simps) (simp add: startswith_def)

lemma alternatives_from_hd: "\<exists>x. hd (alternatives_from cur s) = cur @ x"
proof (induction cur s rule: alternatives_from.induct)
  case (1 cur s)
  show ?case
  proof (cases "s = [] \<or> startswith s '' and/or '' \<or> startswith s '' or ''")
    case True
    then show ?thesis
      by (subst alternatives_from.simps) auto
  next
    case False
    with 1(3) obtain x where "hd (alternatives_from (cur @ [hd s]) (tl s)) = (cur @ [hd s]) @ x"
      by auto
    with False show ?thesis
      by (subst alternatives_from.simps) simp
  qed
qed

lemma split_head_Nil: "split_head sep [] = []"
  by (simp add: split_head_def)

lemma split_head_Cons:
  "split_head sep (c # s) = (if startswith (c # s) sep then [] else c # split_head sep s)"
  by (auto simp: split_head_def split: option.splits)

lemma first_name_Nil: "first_name [] = []"
  by (simp add: first_name_def py_replace.simps split_head_Nil)

lemma first_name_or: "startswith s '' or '' \<Longrightarrow> first_name s = []"
proof -
  assume a: "startswith s '' or ''"
  then have "s \<noteq> []"
    by (auto simp: startswith_def)
  with a show ?thesis
    by (simp add: first_name_def py_replace.simps [of "'' or ''" "''/''" s] split_head_Cons
        startswith_def)
qed

lemma first_name_Cons:
  "\<not> startswith (c # s) '' or '' \<Longrightarrow>
     first_name (c # s) = (if c = CHR ''/'' then [] else c # first_name s)"
  by (simp add: first_name_def py_replace.simps [of "'' or ''" "''/''" "c # s"] split_head_Cons
      startswith_def)

lemma first_name_cases:
  "q = first_name q \<or> (\<exists>b. q = first_name q @ '' or '' @ b) \<or>
   (\<exists>b. q = first_name q @ CHR ''/'' # b)"
proof (induction q)
  case Nil
  then show ?case by (simp add: first_name_Nil)
next
  case (Cons c q)
  show ?case
  proof (cases "startswith (c # q) '' or ''")
    case True
    from startswith_split [OF True] obtain b where "c # q = '' or '' @ b" ..
    then have "\<exists>b. c # q = [] @ '' or '' @ b"
      by (intro exI [of _ b]) (simp only: append_Nil)
    then show ?thesis
      unfolding first_name_or [OF True] by (intro disjI2 disjI1)
  next
    case False
    show ?thesis
    proof (cases "c = CHR ''/''")
      case True
      with False show ?thesis
        by (simp add: first_name_Cons)
    next
      case c: False
      from Cons.IH show ?thesis
        using False c by (auto simp: first_name_Cons)
    qed
  qed
qed

lemma enabled_name_is_alternative:
  assumes "CHR '' '' \<notin> set (first_name q)" "CHR ''/'' \<notin> set (first_alternative q)"
  shows "first_name q \<in> set (spec_alternatives q)"
proof -
  let ?f = "first_name q"
  from first_name_cases [of q]
  consider "q = ?f" | b where "q = ?f @ '' or '' @ b" | b where "q = ?f @ CHR ''/'' # b"
    by blast
  then show ?thesis
  proof cases
    case 1
    have "alternatives_from [] (?f @ []) = alternatives_from ([] @ ?f) []"
      using assms(1) by (rule alternatives_from_plain)
    then have "spec_alternatives ?f = [?f]"
      by (simp add: spec_alternatives_def alternatives_from_Nil)
    with 1 show ?thesis
      by simp
  next
    case 2
    have "alternatives_from [] (?f @ '' or '' @ b) = alternatives_from ([] @ ?f) ('' or '' @ b)"
      using assms(1) by (rule alternatives_from_plain)
    then have "spec_alternatives (?f @ '' or '' @ b) = ?f # alternatives_from [] b"
      by (simp only: spec_alternatives_def alternatives_from_or append_Nil)
    with 2 show ?thesis
      by simp
  next
    case 3
    have "alternatives_from [] (?f @ CHR ''/'' # b) = alternatives_from ([] @ ?f) (CHR ''/'' # b)"
      using assms(1) by (rule alternatives_from_plain)
    then have "spec_alternatives (?f @ CHR ''/'' # b) = alternatives_from (?f @ ''/'') b"
      by (simp only: spec_alternatives_def alternatives_from_slash append_Nil)
    moreover obtain x where "hd (alternatives_from (?f @ ''/'') b) = (?f @ ''/'') @ x"
      using alternatives_from_hd by blast
    ultimately have "CHR ''/'' \<in> set (first_alternative (?f @ CHR ''/'' # b))"
      by (simp add: first_alternative_def)
    with 3 assms(2) show ?thesis
      by simp
  qed
qed

text \<open>requirements without a slash: the three readings agree\<close>

lemma py_in_set: "py_in sep s \<Longrightarrow> set sep \<subseteq> set s"
proof (induction s)
  case Nil
  then show ?case by simp
next
  case (Cons c s)
  from Cons.prems have "startswith (c # s) sep \<or> py_in sep s"
    by simp
  then show ?case
  proof
    assume "startswith (c # s) sep"
    then obtain r where "c # s = sep @ r"
      using startswith_split by blast
    then show ?thesis
      by (metis Un_upper1 set_append)
  next
    assume "py_in sep s"
    with Cons.IH show ?thesis by auto
  qed
qed

lemma split_head_absent: "\<not> py_in sep s \<Longrightarrow> split_head sep s = s"
  by (induction s) (auto simp: split_head_Nil split_head_Cons)

lemma required_flat_no_slash:
  assumes "CHR ''/'' \<notin> set q"
  shows "required_flat [q] = [split_head '' or '' q]"
proof -
  have "\<not> py_in '' and/or '' q"
    using py_in_set [of "'' and/or ''" q] assms by auto
  then show ?thesis
    by (simp add: required_flat_def split_head_absent)
qed

lemma first_name_no_slash:
  "CHR ''/'' \<notin> set q \<Longrightarrow> first_name q = split_head '' or '' q"
proof (induction q)
  case Nil
  then show ?case by (simp add: first_name_Nil split_head_Nil)
next
  case (Cons c q)
  show ?case
  proof (cases "startswith (c # q) '' or ''")
    case True
    then show ?thesis
      by (simp add: first_name_or split_head_Cons)
  next
    case False
    with Cons show ?thesis
      by (auto simp: first_name_Cons split_head_Cons)
  qed
qed

lemma alternatives_from_no_slash:
  "CHR ''/'' \<notin> set q \<Longrightarrow> hd (alternatives_from cur q) = cur @ split_head '' or '' q"
proof (induction q arbitrary: cur)
  case Nil
  then show ?case by (simp add: alternatives_from_Nil split_head_Nil)
next
  case (Cons c q)
  have a: "\<not> startswith (c # q) '' and/or ''"
    using py_in_set [of "'' and/or ''" "c # q"] Cons.prems by auto
  show ?case
  proof (cases "startswith (c # q) '' or ''")
    case True
    then show ?thesis
      using a by (subst alternatives_from.simps) (simp add: split_head_Cons)
  next
    case False
    have "alternatives_from cur (c # q) = alternatives_from (cur @ [c]) q"
      using a False by (subst alternatives_from.simps) simp
    with Cons.IH [of "cur @ [c]"] Cons.prems False show ?thesis
      by (simp add: split_head_Cons)
  qed
qed

lemma first_alternative_no_slash:
  "CHR ''/'' \<notin> set q \<Longrightarrow> first_alternative q = split_head '' or '' q"
  using alternatives_from_no_slash [of q "[]"]
  by (simp add: first_alternative_def spec_alternatives_def)

section \<open>The validator\<close>

lemma missing_fields_ok:
  "\<forall>rf\<in>set rfs. py_strip rf \<noteq> ''key'' \<longrightarrow> map_of fs (py_strip rf) \<noteq> None \<Longrightarrow>
     missing_fields fs rfs =
       Inr (filter (\<lambda>rf. rf \<noteq> ''key'' \<and> (\<exists>w. map_of fs rf = Some w \<and> py_strip (content w) = []))
             (map py_strip rfs))"
  by (induction rfs) (auto simp: Let_def)

lemma validate_widgets:
  assumes "map_of (entry_types info) et = Some sch"
    and "\<forall>rf\<in>set (required_flat (required sch)).
           py_strip rf \<noteq> ''key'' \<longrightarrow> map_of fs (py_strip rf) \<noteq> None"
  shows "validate info fs et =
     Inr (filter (\<lambda>rf. rf \<noteq> ''key'' \<and> (\<exists>w. map_of fs rf = Some w \<and> py_strip (content w) = []))
           (map py_strip (required_flat (required sch))))"
  using assms by (simp add: validate_def missing_fields_ok)

lemma map_of_fold_update:
  "map_of (fold (\<lambda>f e. AList.update f (g f) e) fs e) x =
     (if x \<in> set fs then Some (g x) else map_of e x)"
  by (induction fs arbitrary: e) (auto simp: update_conv')

lemma map_of_make_fields:
  "map_of (make_fields bf r) n =
     (if n \<in> set bf
      then Some \<lparr>content = (case map_of r n of Some v \<Rightarrow> v | None \<Rightarrow> []), enabled = True\<rparr>
      else None)"
  by (simp add: make_fields_def map_of_fold_update)

lemma refresh_fold_kept:
  "n \<in> req \<or> n \<in> opt \<Longrightarrow> map_of fs n = Some w \<Longrightarrow> enabled w \<Longrightarrow>
     map_of (fold (\<lambda>field fs. AList.map_entry field (refresh_widget req opt field) fs) L fs) n =
       Some w"
proof (induction L arbitrary: fs)
  case Nil
  then show ?case by simp
next
  case (Cons x L)
  have "map_of (AList.map_entry x (refresh_widget req opt x) fs) n = Some w"
    using Cons.prems by (auto simp: map_of_map_entry refresh_widget_def)
  from Cons.IH [OF Cons.prems(1) this Cons.prems(3)] show ?case
    by simp
qed

lemma widget_after_open:
  assumes "entry_form_gui info bf md k r sk = Inr fm"
    and "n \<in> set bf" and "n \<in> enabled_names info (entry_type_var fm)"
  shows "map_of (widgets fm) n =
     Some \<lparr>content = (case map_of r n of Some v \<Rightarrow> v | None \<Rightarrow> []), enabled = True\<rparr>"
proof -
  let ?et = "case map_of r ''entry_type'' of Some t \<Rightarrow> t | None \<Rightarrow> ''article''"
  let ?w = "\<lparr>content = (case map_of r n of Some v \<Rightarrow> v | None \<Rightarrow> []), enabled = True\<rparr>"
  from assms(1) obtain sch where sch: "map_of (entry_types info) ?et = Some sch"
    and fm: "fm = \<lparr>mode = md, key_arg = k, show_key = sk,
            key_entry =
              (if md = Edit \<and> k \<noteq> None \<and> k \<noteq> Some [] then the k
               else case map_of r ''key'' of Some v \<Rightarrow> v | None \<Rightarrow> []),
            entry_type_var = ?et,
            widgets = fold (\<lambda>field fs. AList.map_entry field
                (refresh_widget (set (map first_name (required sch)))
                   (set (map first_name (optional sch))) field) fs) bf (make_fields bf r)\<rparr>"
    by (auto simp: entry_form_gui_def update_fields_def Let_def split: option.splits)
  have et: "entry_type_var fm = ?et"
    by (simp add: fm)
  have "n \<in> set (map first_name (required sch)) \<or> n \<in> set (map first_name (optional sch))"
    using assms(3) by (simp add: et enabled_names_def sch)
  moreover have "map_of (make_fields bf r) n = Some ?w"
    using assms(2) by (simp add: map_of_make_fields)
  ultimately have "map_of (fold (\<lambda>field fs. AList.map_entry field
                (refresh_widget (set (map first_name (required sch)))
                   (set (map first_name (optional sch))) field) fs) bf (make_fields bf r)) n = Some ?w"
    by (rule refresh_fold_kept) simp
  then show ?thesis
    by (simp add: fm)
qed

lemma entry_form_gui_opens:
  assumes "map_of (entry_types info)
             (case map_of r ''entry_type'' of Some t \<Rightarrow> t | None \<Rightarrow> ''article'') = Some sch"
  shows "\<exists>fm. entry_form_gui info bf md k r sk = Inr fm \<and>
           entry_type_var fm = (case map_of r ''entry_type'' of Some t \<Rightarrow> t | None \<Rightarrow> ''article'')"
  using assms by (simp add: entry_form_gui_def update_fields_def Let_def)

lemma required_flat_names:
  assumes "\<forall>q\<in>set qs. CHR ''/'' \<notin> set q \<and> py_strip (first_alternative q) = first_alternative q"
  shows "map py_strip (required_flat qs) = map first_alternative qs"
    and "required_flat qs = map first_alternative qs"
proof -
  have "(if py_in '' or '' q then split_head '' or '' q
         else if py_in '' and/or '' q then split_head '' and/or '' q else q) = first_alternative q"
    if "q \<in> set qs" for q
  proof -
    from that assms have "CHR ''/'' \<notin> set q"
      by blast
    then show ?thesis
      using required_flat_no_slash [of q] by (simp add: required_flat_def first_alternative_no_slash)
  qed
  then show r: "required_flat qs = map first_alternative qs"
    by (simp add: required_flat_def)
  show "map py_strip (required_flat qs) = map first_alternative qs"
    unfolding r using assms by (simp add: map_idI)
qed

lemma py_strip_Nil: "py_strip [] = []"
  by (simp add: py_strip_def strip_chars_def lstrip_chars_def rstrip_chars_def)

text \<open>
  C8, as the code has it.  The validator is the scan of the required fields in \<^verbatim>\<open>save\<close>,
  on the form that is opened on the record (\<open>validate_record\<close>).  Take a record whose
  entry type is registered under a name without surrounding whitespace, and let every
  requirement of the type hold no \<^verbatim>\<open>/\<close> and have a first alternative that has no
  surrounding whitespace and, unless it is \<^verbatim>\<open>key\<close>, is a name of \<^verbatim>\<open>BIB_FIELDS\<close>.  Then
  \<^verbatim>\<open>missing\<close> holds, in the order of the requirements, the first alternative of each
  requirement, \<^verbatim>\<open>key\<close> left out, that the record lacks or holds with a value that is
  empty once stripped: a value of whitespace only counts as missing.  A book with an
  editor and no author lacks its author, and the record with the title \<^verbatim>\<open>X\<close> alone lacks
  the journal and the year (the witness).  What becomes of a requirement written with
  \<^verbatim>\<open>and/or\<close> is left open here: \<^verbatim>\<open>update_fields\<close> and \<^verbatim>\<open>save\<close> read it differently,
  and a chapter that the record holds is reported missing.
\<close>

theorem validate_record_missing:
  assumes "(case map_of r ''entry_type'' of Some t \<Rightarrow> t | None \<Rightarrow> ''article'') = et"
    and "py_strip et = et"
    and "map_of (entry_types info) et = Some sch"
    and "\<forall>q\<in>set (required sch).
           CHR ''/'' \<notin> set q \<and> py_strip (first_alternative q) = first_alternative q \<and>
           (first_alternative q \<noteq> ''key'' \<longrightarrow> first_alternative q \<in> set bib_fields)"
  shows "validate_record info bib_fields r =
     Inr (filter (\<lambda>n. n \<noteq> ''key'' \<and>
                     (case map_of r n of None \<Rightarrow> True | Some v \<Rightarrow> py_strip v = []))
           (map first_alternative (required sch)))"
proof -
  from entry_form_gui_opens [of info r sch bib_fields Add None True] assms(1,3)
  obtain fm where form: "entry_form_gui info bib_fields Add None r True = Inr fm"
    and et: "entry_type_var fm = et"
    by auto
  have names: "map py_strip (required_flat (required sch)) = map first_alternative (required sch)"
    "required_flat (required sch) = map first_alternative (required sch)"
    using assms(4) by (intro required_flat_names; blast)+
  have widget: "map_of (widgets fm) n =
      Some \<lparr>content = (case map_of r n of Some v \<Rightarrow> v | None \<Rightarrow> []), enabled = True\<rparr>"
    if "n \<in> set (map first_alternative (required sch))" "n \<noteq> ''key''" for n
  proof -
    from that(1) obtain q where q: "q \<in> set (required sch)" "n = first_alternative q"
      by auto
    with assms(4) that(2) have "CHR ''/'' \<notin> set q" "n \<in> set bib_fields"
      by auto
    then have "first_name q = n"
      by (simp add: q(2) first_name_no_slash first_alternative_no_slash)
    with q(1) have "n \<in> enabled_names info (entry_type_var fm)"
      by (auto simp: enabled_names_def et assms(3))
    with form \<open>n \<in> set bib_fields\<close> show ?thesis
      by (intro widget_after_open)
  qed
  have "\<forall>rf\<in>set (required_flat (required sch)).
           py_strip rf \<noteq> ''key'' \<longrightarrow> map_of (widgets fm) (py_strip rf) \<noteq> None"
  proof (intro ballI impI)
    fix rf
    assume rf: "rf \<in> set (required_flat (required sch))" and k: "py_strip rf \<noteq> ''key''"
    from rf have "py_strip rf \<in> set (map py_strip (required_flat (required sch)))"
      by simp
    then have "py_strip rf \<in> set (map first_alternative (required sch))"
      by (simp only: names(1))
    from widget [OF this k] show "map_of (widgets fm) (py_strip rf) \<noteq> None"
      by simp
  qed
  with assms(3) have "validate info (widgets fm) et =
     Inr (filter (\<lambda>rf. rf \<noteq> ''key'' \<and>
                   (\<exists>w. map_of (widgets fm) rf = Some w \<and> py_strip (content w) = []))
           (map py_strip (required_flat (required sch))))"
    by (rule validate_widgets)
  also have "filter (\<lambda>rf. rf \<noteq> ''key'' \<and>
                   (\<exists>w. map_of (widgets fm) rf = Some w \<and> py_strip (content w) = []))
           (map py_strip (required_flat (required sch))) =
      filter (\<lambda>n. n \<noteq> ''key'' \<and>
                     (case map_of r n of None \<Rightarrow> True | Some v \<Rightarrow> py_strip v = []))
           (map first_alternative (required sch))"
    unfolding names(1)
  proof (rule filter_cong [OF refl])
    fix n
    assume n: "n \<in> set (map first_alternative (required sch))"
    show "(n \<noteq> ''key'' \<and> (\<exists>w. map_of (widgets fm) n = Some w \<and> py_strip (content w) = [])) =
          (n \<noteq> ''key'' \<and> (case map_of r n of None \<Rightarrow> True | Some v \<Rightarrow> py_strip v = []))"
    proof (cases "n = ''key''")
      case True
      then show ?thesis by simp
    next
      case False
      from widget [OF n False] show ?thesis
        by (simp add: py_strip_Nil split: option.splits)
    qed
  qed
  finally show ?thesis
    by (simp add: validate_record_def form et assms(2))
qed

theorem validate_record_missing_witness:
  "validate_record example_info
     [''author'', ''editor'', ''title'', ''journal'', ''year'', ''chapter'', ''pages'',
      ''publisher'', ''note'']
     [(''editor'', ''E''), (''title'', ''T''), (''year'', ''1999''), (''entry_type'', ''book'')] =
     Inr [''author'', ''publisher''] \<and>
   validate_record example_info [''title'', ''journal'', ''year'', ''note''] [(''title'', ''X'')] =
     Inr [''journal'', ''year'']"
proof -
  let ?bf = "[''author'', ''editor'', ''title'', ''journal'', ''year'', ''chapter'', ''pages'',
      ''publisher'', ''note'']"
  let ?r = "[(''editor'', ''E''), (''title'', ''T''), (''year'', ''1999''),
      (''entry_type'', ''book'')]"
  let ?book = "\<lparr>required = [''author or editor'', ''title'', ''publisher'', ''year''],
      optional = [''note''], description = ''A book with a publisher''\<rparr>"
  let ?article = "\<lparr>required = [''title'', ''journal'', ''year''], optional = [''note''],
      description = ''An article from a journal''\<rparr>"
  have b1: "(case map_of ?r ''entry_type'' of Some t \<Rightarrow> t | None \<Rightarrow> ''article'') = ''book''"
    by simp
  have b2: "py_strip ''book'' = ''book''"
    by code_simp
  have b3: "map_of (entry_types example_info) ''book'' = Some ?book"
    by (simp add: example_info_def)
  have b4: "\<forall>q\<in>set (required ?book).
           CHR ''/'' \<notin> set q \<and> py_strip (first_alternative q) = first_alternative q \<and>
           (first_alternative q \<noteq> ''key'' \<longrightarrow> first_alternative q \<in> set ?bf)"
    by code_simp
  have b5: "filter (\<lambda>n. n \<noteq> ''key'' \<and>
                     (case map_of ?r n of None \<Rightarrow> True | Some v \<Rightarrow> py_strip v = []))
           (map first_alternative (required ?book)) = [''author'', ''publisher'']"
    by code_simp
  have a1: "(case map_of [(''title'', ''X'')] ''entry_type'' of Some t \<Rightarrow> t | None \<Rightarrow> ''article'') =
      ''article''"
    by simp
  have a2: "py_strip ''article'' = ''article''"
    by code_simp
  have a3: "map_of (entry_types example_info) ''article'' = Some ?article"
    by (simp add: example_info_def)
  have a4: "\<forall>q\<in>set (required ?article).
           CHR ''/'' \<notin> set q \<and> py_strip (first_alternative q) = first_alternative q \<and>
           (first_alternative q \<noteq> ''key'' \<longrightarrow>
              first_alternative q \<in> set [''title'', ''journal'', ''year'', ''note''])"
    by code_simp
  have a5: "filter (\<lambda>n. n \<noteq> ''key'' \<and>
                     (case map_of [(''title'', ''X'')] n of None \<Rightarrow> True
                      | Some v \<Rightarrow> py_strip v = []))
           (map first_alternative (required ?article)) = [''journal'', ''year'']"
    by code_simp
  show ?thesis
    using validate_record_missing [OF b1 b2 b3 b4] validate_record_missing [OF a1 a2 a3 a4]
    unfolding b5 a5 by (rule conjI)
qed

theorem validate_record_counterexample:
  "validate_record example_info [''title'', ''journal'', ''year'', ''note'']
     [(''title'', '' ''), (''journal'', ''J''), (''year'', ''2020'')] = Inr [''title''] \<and>
   validate_record example_info
     [''author'', ''editor'', ''title'', ''journal'', ''year'', ''chapter'', ''pages'',
      ''publisher'', ''note'']
     [(''author'', ''A''), (''title'', ''T''), (''chapter'', ''3''), (''publisher'', ''P''),
      (''year'', ''1999''), (''entry_type'', ''inbook'')] = Inr [''chapter''] \<and>
   validate_record example_info [''title''] [(''title'', ''X'')] = Inl (KeyError ''journal'')"
  by code_simp

section \<open>The form and its invariant\<close>

lemma make_fields_keys:
  "distinct (map fst (make_fields bf ed)) \<and> fst ` set (make_fields bf ed) = set bf"
proof -
  have "distinct (map fst acc) \<Longrightarrow>
      distinct (map fst (fold (\<lambda>field fs. AList.update field (g field) fs) bf acc)) \<and>
      fst ` set (fold (\<lambda>field fs. AList.update field (g field) fs) bf acc) =
        fst ` set acc \<union> set bf" for g :: "string \<Rightarrow> widget" and acc
  proof (induction bf arbitrary: acc)
    case Nil
    then show ?case by simp
  next
    case (Cons b bf)
    have "distinct (map fst (AList.update b (g b) acc))"
      using Cons.prems by (rule distinct_update)
    from Cons.IH [OF this] show ?case
      by (auto simp: dom_update)
  qed
  from this [of "[]"] show ?thesis
    by (simp add: make_fields_def)
qed

lemma refresh_fold_keys:
  "distinct (map fst fs) \<Longrightarrow>
     distinct (map fst (fold (\<lambda>field fs. AList.map_entry field (g field) fs) L fs)) \<and>
     fst ` set (fold (\<lambda>field fs. AList.map_entry field (g field) fs) L fs) = fst ` set fs"
proof (induction L arbitrary: fs)
  case Nil
  then show ?case by simp
next
  case (Cons x L)
  have "distinct (map fst (AList.map_entry x (g x) fs))"
    using Cons.prems by (rule distinct_map_entry)
  from Cons.IH [OF this] show ?case
    by (simp add: dom_map_entry)
qed

lemma refresh_fold_enabled:
  "map_of (fold (\<lambda>field fs. AList.map_entry field (refresh_widget req opt field) fs) L fs) f = Some w
     \<Longrightarrow> f \<in> set L \<Longrightarrow> enabled w = (f \<in> req \<or> f \<in> opt)"
proof (induction L arbitrary: w rule: rev_induct)
  case Nil
  then show ?case by simp
next
  case (snoc x L)
  let ?prev = "fold (\<lambda>field fs. AList.map_entry field (refresh_widget req opt field) fs) L fs"
  show ?case
  proof (cases "f = x")
    case True
    with snoc.prems(1) obtain w0 where "w = refresh_widget req opt x w0"
      by (auto simp: map_of_map_entry split: option.splits)
    with True show ?thesis
      by (simp add: refresh_widget_def)
  next
    case False
    with snoc.prems have "map_of ?prev f = Some w" "f \<in> set L"
      by (simp_all add: map_of_map_entry)
    then show ?thesis
      by (rule snoc.IH)
  qed
qed

lemma update_fields_same:
  "update_fields info bf fm = Inr fm' \<Longrightarrow>
     mode fm' = mode fm \<and> show_key fm' = show_key fm \<and> key_entry fm' = key_entry fm \<and>
     key_arg fm' = key_arg fm \<and> entry_type_var fm' = entry_type_var fm"
  by (auto simp: update_fields_def Let_def split: option.splits)

lemma update_fields_ok:
  assumes "update_fields info bf fm = Inr fm'"
    and "distinct (map fst (widgets fm))"
    and "fst ` set (widgets fm) \<subseteq> set bf"
  shows "form_ok info bf fm'"
proof -
  from assms(1) obtain sch where sch: "map_of (entry_types info) (entry_type_var fm) = Some sch"
    and fm': "fm' = fm\<lparr>widgets :=
        fold (\<lambda>field fs. AList.map_entry field
                (refresh_widget (set (map first_name (required sch)))
                   (set (map first_name (optional sch))) field) fs) bf (widgets fm)\<rparr>"
    by (auto simp: update_fields_def Let_def split: option.splits)
  let ?req = "set (map first_name (required sch))"
  let ?opt = "set (map first_name (optional sch))"
  let ?ws = "fold (\<lambda>field fs. AList.map_entry field (refresh_widget ?req ?opt field) fs) bf (widgets fm)"
  have k: "distinct (map fst ?ws)" "fst ` set ?ws = fst ` set (widgets fm)"
    using refresh_fold_keys [OF assms(2), of "refresh_widget ?req ?opt" bf] by simp_all
  have app: "enabled_names info (entry_type_var fm) = ?req \<union> ?opt"
    by (simp add: enabled_names_def sch)
  have "f \<in> enabled_names info (entry_type_var fm)" if "map_of ?ws f = Some w" "enabled w" for f w
  proof -
    from that(1) have "(f, w) \<in> set ?ws"
      by (rule map_of_SomeD)
    then have "f \<in> fst ` set ?ws"
      by force
    with k(2) assms(3) have "f \<in> set bf"
      by auto
    from refresh_fold_enabled [OF that(1) this] that(2) show ?thesis
      by (simp add: app)
  qed
  with k assms(3) sch show ?thesis
    by (simp add: form_ok_def fm')
qed

lemma entry_form_gui_ok:
  assumes "entry_form_gui info bf md k ed sk = Inr fm0"
  shows "form_ok info bf fm0 \<and> mode fm0 = md \<and> show_key fm0 = sk"
proof -
  let ?fm = "\<lparr>mode = md, key_arg = k, show_key = sk,
            key_entry =
              (if md = Edit \<and> k \<noteq> None \<and> k \<noteq> Some [] then the k
               else case map_of ed ''key'' of Some v \<Rightarrow> v | None \<Rightarrow> []),
            entry_type_var = (case map_of ed ''entry_type'' of Some t \<Rightarrow> t | None \<Rightarrow> ''article''),
            widgets = make_fields bf ed\<rparr>"
  have u: "update_fields info bf ?fm = Inr fm0"
    using assms by (simp add: entry_form_gui_def Let_def)
  have "form_ok info bf fm0"
    by (rule update_fields_ok [OF u]) (simp_all add: make_fields_keys)
  moreover have "mode fm0 = md \<and> show_key fm0 = sk"
    using update_fields_same [OF u] by simp
  ultimately show ?thesis ..
qed

lemma apply_event_ok:
  assumes "form_ok info bf fm"
  shows "form_ok info bf (apply_event info bf ev fm)"
proof (cases ev)
  case (Type_key s)
  with assms show ?thesis
    by (simp add: apply_event_def form_ok_def)
next
  case (Type_field f s)
  have "enabled w \<Longrightarrow> g \<in> enabled_names info (entry_type_var fm)"
    if "map_of (AList.map_entry f (\<lambda>w. if enabled w then w\<lparr>content := s\<rparr> else w) (widgets fm)) g = Some w"
    for g w
  proof -
    from that obtain w0 where "map_of (widgets fm) g = Some w0" "enabled w = enabled w0"
      by (auto simp: map_of_map_entry split: option.splits if_splits)
    with assms show "enabled w \<Longrightarrow> g \<in> enabled_names info (entry_type_var fm)"
      by (simp add: form_ok_def)
  qed
  with assms show ?thesis
    by (simp add: apply_event_def Type_field form_ok_def distinct_map_entry dom_map_entry)
next
  case (Select_type t)
  show ?thesis
  proof (cases "t \<in> set (map fst (entry_types info))")
    case False
    with assms show ?thesis
      by (simp add: apply_event_def Select_type)
  next
    case True
    then have "map_of (entry_types info) t \<noteq> None"
      by (simp add: map_of_eq_None_iff)
    then obtain fm' where u: "update_fields info bf (fm\<lparr>entry_type_var := t\<rparr>) = Inr fm'"
      by (auto simp: update_fields_def Let_def)
    have "form_ok info bf fm'"
      by (rule update_fields_ok [OF u]) (use assms in \<open>simp_all add: form_ok_def\<close>)
    with True u show ?thesis
      by (simp add: apply_event_def Select_type)
  qed
qed

lemma apply_event_same:
  "mode (apply_event info bf ev fm) = mode fm \<and>
   show_key (apply_event info bf ev fm) = show_key fm"
proof (cases ev)
  case (Select_type t)
  show ?thesis
  proof (cases "update_fields info bf (fm\<lparr>entry_type_var := t\<rparr>)")
    case (Inl e)
    then show ?thesis by (simp add: apply_event_def Select_type)
  next
    case (Inr fm')
    with update_fields_same [OF Inr] show ?thesis
      by (simp add: apply_event_def Select_type)
  qed
qed (simp_all add: apply_event_def)

lemma fold_apply_event_ok:
  "form_ok info bf fm \<Longrightarrow> form_ok info bf (fold (apply_event info bf) evs fm)"
  by (induction evs arbitrary: fm) (simp_all add: apply_event_ok)

lemma fold_apply_event_same:
  "mode (fold (apply_event info bf) evs fm) = mode fm \<and>
   show_key (fold (apply_event info bf) evs fm) = show_key fm"
  by (induction evs arbitrary: fm) (simp_all add: apply_event_same)

section \<open>Saving\<close>

lemma save_rejects_existing_key:
  assumes "mode fm = Add" and "show_key fm"
    and "map_of db (py_strip (key_entry fm)) \<noteq> None"
  shows "(\<exists>e. save info db fm confirm = Inl e) \<and>
     (py_strip (key_entry fm) \<noteq> [] \<and> py_strip (entry_type_var fm) \<noteq> [] \<and>
      (\<exists>m. validate info (widgets fm) (py_strip (entry_type_var fm)) = Inr m) \<longrightarrow>
        save info db fm confirm = Inl Duplicate_key)"
proof (cases "validate info (widgets fm) (py_strip (entry_type_var fm))")
  case (Inl e)
  then show ?thesis
    by (simp add: save_def Let_def)
next
  case (Inr m)
  with assms show ?thesis
    by (simp add: save_def Let_def)
qed

text \<open>
  Whatever the form holds when the add form is saved with a key that, stripped, is already
  in the store, \<^verbatim>\<open>on_save\<close> is not called and the store stays as it was; when the scan of
  the required fields completes and neither the stripped key nor the entry type is empty,
  the error is the duplicate key.
\<close>

lemma add_existing_key_keeps_store:
  assumes "entry_form_gui info bib_fields Add None [] True = Inr fm0"
    and "fm = fold (apply_event info bib_fields) evs fm0"
    and "map_of db (py_strip (key_entry fm)) \<noteq> None"
  shows "(\<exists>e. add_entry_gui info bib_fields db evs confirm = (Inl e, db)) \<and>
     (py_strip (key_entry fm) \<noteq> [] \<and> py_strip (entry_type_var fm) \<noteq> [] \<and>
      (\<exists>m. validate info (widgets fm) (py_strip (entry_type_var fm)) = Inr m) \<longrightarrow>
        add_entry_gui info bib_fields db evs confirm = (Inl Duplicate_key, db))"
proof -
  have "mode fm0 = Add" "show_key fm0"
    using entry_form_gui_ok [OF assms(1)] by simp_all
  then have "mode fm = Add" "show_key fm"
    using fold_apply_event_same [of info bib_fields evs fm0] by (simp_all add: assms(2))
  from save_rejects_existing_key [OF this assms(3), of info confirm]
  obtain e where e: "save info db fm confirm = Inl e"
    and d: "py_strip (key_entry fm) \<noteq> [] \<and> py_strip (entry_type_var fm) \<noteq> [] \<and>
      (\<exists>m. validate info (widgets fm) (py_strip (entry_type_var fm)) = Inr m) \<longrightarrow>
        save info db fm confirm = Inl Duplicate_key"
    by blast
  have a: "add_entry_gui info bib_fields db evs confirm = (Inl e, db)"
    using e by (simp add: add_entry_gui_def assms(1) assms(2) [symmetric])
  moreover have "add_entry_gui info bib_fields db evs confirm = (Inl Duplicate_key, db)"
    if "py_strip (key_entry fm) \<noteq> [] \<and> py_strip (entry_type_var fm) \<noteq> [] \<and>
      (\<exists>m. validate info (widgets fm) (py_strip (entry_type_var fm)) = Inr m)"
    using d that e a by simp
  ultimately show ?thesis
    by blast
qed

text \<open>
  C6 does not hold of the code as it stands.  \<^verbatim>\<open>save\<close> scans the required fields (line
  215) before it looks the key up (line 223), and \<^verbatim>\<open>fields[rf]\<close> raises \<^verbatim>\<open>KeyError\<close> for
  a required field that has no widget.  With the persisted field order \<^verbatim>\<open>['title']\<close> the
  canonical field list is \<^verbatim>\<open>['title']\<close>, since \<^verbatim>\<open>load_bibtex_fields\<close> drops the registered
  fields that the persisted order does not list; the journal that an article requires has
  no widget, and the save of the add form on the occupied key \<^verbatim>\<open>k1\<close> ends in
  \<^verbatim>\<open>KeyError\<close> and not in the duplicate-key error.  The store is as it was.
\<close>

theorem add_existing_key_raises:
  "load_bibtex_fields (map fst (registry_fields example_info)) [''title''] = [''title''] \<and>
   add_entry_gui example_info
     (load_bibtex_fields (map fst (registry_fields example_info)) [''title''])
     [(''k1'', [(''title'', ''Foo''), (''entry_type'', ''article'')])] [Type_key ''k1''] True =
   (Inl (KeyError ''journal''), [(''k1'', [(''title'', ''Foo''), (''entry_type'', ''article'')])])"
  by code_simp

lemma update_members:
  "(a, b) \<in> set (AList.update k v al) \<Longrightarrow> (a = k \<and> b = v) \<or> (a, b) \<in> set al"
  by (induction al) (auto split: if_splits)

lemma new_entry_members:
  assumes "(f, v) \<in> set (new_entry ws et)"
  shows "(f = ''entry_type'' \<and> v = et) \<or>
         (\<exists>w. (f, w) \<in> set ws \<and> v = content w \<and> content w \<noteq> [] \<and> enabled w)"
  using update_members [OF assms [unfolded new_entry_def]] by auto

lemma enabled_names_applicable:
  assumes "\<forall>(t, sch)\<in>set (entry_types info). \<forall>q\<in>set (required sch) \<union> set (optional sch).
             CHR ''/'' \<notin> set (first_alternative q)"
    and "f \<in> enabled_names info et" and "CHR '' '' \<notin> set f"
  shows "spec_applicable info et f"
proof -
  from assms(2) obtain sch where sch: "map_of (entry_types info) et = Some sch"
    and "f \<in> set (map first_name (required sch)) \<union> set (map first_name (optional sch))"
    by (auto simp: enabled_names_def split: option.splits)
  then obtain q where q: "q \<in> set (required sch) \<union> set (optional sch)" "f = first_name q"
    by auto
  from sch have "(et, sch) \<in> set (entry_types info)"
    by (rule map_of_SomeD)
  with assms(1) q(1) have "CHR ''/'' \<notin> set (first_alternative q)"
    by blast
  with assms(3) have "f \<in> set (spec_alternatives q)"
    unfolding q(2) by (intro enabled_name_is_alternative)
  with q(1) show ?thesis
    by (auto simp: spec_applicable_def sch list_ex_iff)
qed

text \<open>
  C9, as the code has it.  Let the names of the registered entry types have no surrounding
  whitespace, let the first alternative of no requirement hold a \<^verbatim>\<open>/\<close>, and let no name
  of \<^verbatim>\<open>BIB_FIELDS\<close> hold a space.  Then of every record that \<^verbatim>\<open>save\<close> hands to
  \<^verbatim>\<open>on_save\<close>, from a form opened in any mode and after any input of the user: every
  stored value is a non-empty string, and every stored field other than \<^verbatim>\<open>entry_type\<close> is
  an alternative of a required or optional requirement of the stored entry type, in the
  notation of the specification.  Without the first condition \<^verbatim>\<open>save\<close>, which strips the
  entry type, stores the fields of the type \<^verbatim>\<open>" a"\<close> under the type \<^verbatim>\<open>"a"\<close>; without the
  other two \<^verbatim>\<open>update_fields\<close> enables a name that is no alternative (the counterexample).
\<close>

theorem saved_record_invariant:
  assumes "\<forall>t\<in>fst ` set (entry_types info). py_strip t = t"
    and "\<forall>(t, sch)\<in>set (entry_types info). \<forall>q\<in>set (required sch) \<union> set (optional sch).
           CHR ''/'' \<notin> set (first_alternative q)"
    and "\<forall>f\<in>set bib_fields. CHR '' '' \<notin> set f"
    and "entry_form_gui info bib_fields md k entry_data sk = Inr fm0"
    and "save info db (fold (apply_event info bib_fields) evs fm0) confirm = Inr (new_key, ne)"
  shows "\<exists>et. map_of ne ''entry_type'' = Some et \<and>
           (\<forall>(f, v)\<in>set ne. v \<noteq> [] \<and> (f = ''entry_type'' \<or> spec_applicable info et f))"
proof -
  let ?fm = "fold (apply_event info bib_fields) evs fm0"
  let ?et = "py_strip (entry_type_var ?fm)"
  have ok: "form_ok info bib_fields ?fm"
    using entry_form_gui_ok [OF assms(4)] by (simp add: fold_apply_event_ok)
  then have "map_of (entry_types info) (entry_type_var ?fm) \<noteq> None"
    by (simp add: form_ok_def)
  then have "entry_type_var ?fm \<in> fst ` set (entry_types info)"
    by (simp add: map_of_eq_None_iff)
  with assms(1) have et: "?et = entry_type_var ?fm"
    by blast
  from assms(5) have ne: "ne = new_entry (widgets ?fm) ?et" and nonempty: "?et \<noteq> []"
    by (auto simp: save_def Let_def split: sum.splits if_splits)
  have "map_of ne ''entry_type'' = Some ?et"
    by (simp add: ne new_entry_def update_conv')
  moreover have "v \<noteq> [] \<and> (f = ''entry_type'' \<or> spec_applicable info ?et f)"
    if "(f, v) \<in> set ne" for f v
  proof -
    from new_entry_members [OF that [unfolded ne]]
    consider "f = ''entry_type''" "v = ?et"
      | w where "(f, w) \<in> set (widgets ?fm)" "v = content w" "content w \<noteq> []" "enabled w"
      by blast
    then show ?thesis
    proof cases
      case 1
      with nonempty show ?thesis by simp
    next
      case 2
      from ok have "distinct (map fst (widgets ?fm))"
        by (simp add: form_ok_def)
      with 2(1) have "map_of (widgets ?fm) f = Some w"
        by simp
      with ok 2(4) have "f \<in> enabled_names info (entry_type_var ?fm)"
        by (simp add: form_ok_def)
      moreover from ok 2(1) have "f \<in> set bib_fields"
        by (force simp: form_ok_def)
      with assms(3) have "CHR '' '' \<notin> set f"
        by blast
      ultimately have "spec_applicable info (entry_type_var ?fm) f"
        by (intro enabled_names_applicable [OF assms(2)])
      with 2 et show ?thesis by simp
    qed
  qed
  ultimately show ?thesis
    by blast
qed

theorem saved_record_invariant_witness:
  "save example_info []
     (fold (apply_event example_info
              [''author'', ''editor'', ''title'', ''journal'', ''year'', ''chapter'', ''pages'',
               ''publisher'', ''note''])
        [Type_key ''k2'', Type_field ''editor'' ''E'', Type_field ''journal'' ''Q'']
        \<lparr>mode = Add, key_arg = None, show_key = True, key_entry = [],
         entry_type_var = ''book'',
         widgets = [(''author'', \<lparr>content = [], enabled = True\<rparr>),
                    (''editor'', \<lparr>content = [], enabled = False\<rparr>),
                    (''title'', \<lparr>content = ''X'', enabled = True\<rparr>),
                    (''journal'', \<lparr>content = [], enabled = False\<rparr>),
                    (''year'', \<lparr>content = [], enabled = True\<rparr>),
                    (''chapter'', \<lparr>content = [], enabled = False\<rparr>),
                    (''pages'', \<lparr>content = [], enabled = False\<rparr>),
                    (''publisher'', \<lparr>content = ''P'', enabled = True\<rparr>),
                    (''note'', \<lparr>content = [], enabled = True\<rparr>)]\<rparr>) True =
     Inr (''k2'', [(''title'', ''X''), (''publisher'', ''P''), (''entry_type'', ''book'')]) \<and>
   (\<exists>et. map_of [(''title'', ''X''), (''publisher'', ''P''), (''entry_type'', ''book'')]
            ''entry_type'' = Some et \<and>
         list_all (\<lambda>(f, v). v \<noteq> [] \<and> (f = ''entry_type'' \<or> spec_applicable example_info et f))
           [(''title'', ''X''), (''publisher'', ''P''), (''entry_type'', ''book'')])"
proof -
  let ?bf = "[''author'', ''editor'', ''title'', ''journal'', ''year'', ''chapter'', ''pages'',
               ''publisher'', ''note'']"
  let ?start = "\<lparr>mode = Add, key_arg = None, show_key = True, key_entry = [],
         entry_type_var = ''book'',
         widgets = [(''author'', \<lparr>content = [], enabled = True\<rparr>),
                    (''editor'', \<lparr>content = [], enabled = False\<rparr>),
                    (''title'', \<lparr>content = ''X'', enabled = True\<rparr>),
                    (''journal'', \<lparr>content = [], enabled = False\<rparr>),
                    (''year'', \<lparr>content = [], enabled = True\<rparr>),
                    (''chapter'', \<lparr>content = [], enabled = False\<rparr>),
                    (''pages'', \<lparr>content = [], enabled = False\<rparr>),
                    (''publisher'', \<lparr>content = ''P'', enabled = True\<rparr>),
                    (''note'', \<lparr>content = [], enabled = True\<rparr>)]\<rparr>"
  let ?ne = "[(''title'', ''X''), (''publisher'', ''P''), (''entry_type'', ''book'')]"
  have 1: "\<forall>t\<in>fst ` set (entry_types example_info). py_strip t = t"
  proof -
    have "py_strip ''article'' = ''article''" "py_strip ''book'' = ''book''"
      "py_strip ''inbook'' = ''inbook''"
      by code_simp+
    then show ?thesis by (simp add: example_info_def)
  qed
  have 2: "\<forall>(t, sch)\<in>set (entry_types example_info).
             \<forall>q\<in>set (required sch) \<union> set (optional sch).
               CHR ''/'' \<notin> set (first_alternative q)"
    by code_simp
  have 3: "\<forall>f\<in>set ?bf. CHR '' '' \<notin> set f"
    by simp
  have 4: "entry_form_gui example_info ?bf Add None
             [(''title'', ''X''), (''publisher'', ''P''), (''journal'', ''J''),
              (''editor'', ''E''), (''entry_type'', ''book'')] True =
           Inr ?start"
    by code_simp
  have 5: "save example_info []
             (fold (apply_event example_info ?bf)
                [Type_key ''k2'', Type_field ''editor'' ''E'', Type_field ''journal'' ''Q'']
                ?start) True = Inr (''k2'', ?ne)"
    by code_simp
  from saved_record_invariant [OF 1 2 3 4 5]
  have "\<exists>et. map_of ?ne ''entry_type'' = Some et \<and>
          (\<forall>(f, v)\<in>set ?ne. v \<noteq> [] \<and> (f = ''entry_type'' \<or> spec_applicable example_info et f))" .
  then have "\<exists>et. map_of ?ne ''entry_type'' = Some et \<and>
         list_all (\<lambda>(f, v). v \<noteq> [] \<and> (f = ''entry_type'' \<or> spec_applicable example_info et f)) ?ne"
    unfolding list_all_iff .
  with 5 show ?thesis
    by blast
qed

theorem saved_record_counterexample:
  "(case entry_form_gui (small_info [('' a'', [''x''], []), (''a'', [], [])]) [''x''] Add None
           [(''x'', ''v''), (''entry_type'', '' a'')] True of
      Inl e \<Rightarrow> Inl e
    | Inr fm \<Rightarrow>
        save (small_info [('' a'', [''x''], []), (''a'', [], [])]) []
          (apply_event (small_info [('' a'', [''x''], []), (''a'', [], [])]) [''x'']
             (Type_key ''k'') fm) True) =
     Inr (''k'', [(''x'', ''v''), (''entry_type'', ''a'')]) \<and>
   \<not> spec_applicable (small_info [('' a'', [''x''], []), (''a'', [], [])]) ''a'' ''x'' \<and>
   (case entry_form_gui (small_info [(''article'', [], [''a/b''])]) [''a''] Add None
           [(''a'', ''v'')] True of
      Inl e \<Rightarrow> Inl e
    | Inr fm \<Rightarrow>
        save (small_info [(''article'', [], [''a/b''])]) []
          (apply_event (small_info [(''article'', [], [''a/b''])]) [''a''] (Type_key ''k'') fm)
          True) =
     Inr (''k'', [(''a'', ''v''), (''entry_type'', ''article'')]) \<and>
   \<not> spec_applicable (small_info [(''article'', [], [''a/b''])]) ''article'' ''a'' \<and>
   (case entry_form_gui (small_info [(''article'', [], [''chapter and/or pages''])])
           [''chapter and''] Add None [(''chapter and'', ''v'')] True of
      Inl e \<Rightarrow> Inl e
    | Inr fm \<Rightarrow>
        save (small_info [(''article'', [], [''chapter and/or pages''])]) []
          (apply_event (small_info [(''article'', [], [''chapter and/or pages''])])
             [''chapter and''] (Type_key ''k'') fm) True) =
     Inr (''k'', [(''chapter and'', ''v''), (''entry_type'', ''article'')]) \<and>
   \<not> spec_applicable (small_info [(''article'', [], [''chapter and/or pages''])])
       ''article'' ''chapter and''"
  by code_simp

section \<open>The round trip\<close>

lemma strip_chars_pad:
  assumes "set a \<subseteq> set cs" "set b \<subseteq> set cs"
  shows "strip_chars cs (a @ s @ b) = strip_chars cs s"
proof -
  let ?P = "\<lambda>c. c \<in> set cs"
  have l: "dropWhile ?P (a @ s @ b) = dropWhile ?P (s @ b)"
    using assms(1) by (intro dropWhile_append2) auto
  have rb: "rstrip_chars cs (x @ b) = rstrip_chars cs x" for x
    using assms(2) by (auto simp: rstrip_chars_def dropWhile_append)
  show ?thesis
  proof (cases "\<forall>c\<in>set s. ?P c")
    case True
    then have e: "dropWhile ?P (s @ b) = []" "dropWhile ?P s = []"
      using assms(2) by (auto simp: dropWhile_append)
    show ?thesis
      unfolding strip_chars_def lstrip_chars_def l e by (rule refl)
  next
    case False
    then obtain c where "c \<in> set s" "\<not> ?P c"
      by blast
    then have e: "dropWhile ?P (s @ b) = dropWhile ?P s @ b"
      by (rule dropWhile_append1)
    show ?thesis
      unfolding strip_chars_def lstrip_chars_def l e by (rule rb)
  qed
qed

lemma strip_chars_keep:
  assumes "s \<noteq> []" "hd s \<notin> set cs" "last s \<notin> set cs"
  shows "strip_chars cs s = s"
proof -
  have "dropWhile (\<lambda>c. c \<in> set cs) s = s"
    using assms(1,2) by (cases s) simp_all
  moreover have "rstrip_chars cs s = s"
    using assms(3) by (intro rstrip_chars_id) simp
  ultimately show ?thesis
    by (simp add: strip_chars_def lstrip_chars_def)
qed

lemma strip_chars_fixed_ends:
  assumes "strip_chars cs s = s" "s \<noteq> []"
  shows "hd s \<notin> set cs \<and> last s \<notin> set cs"
  using strip_chars_ends [of cs s] assms by simp

lemma lstrip_before:
  assumes "c \<notin> set cs"
  shows "lstrip_chars cs (pre @ c # rest) = lstrip_chars cs pre @ c # rest"
  using assms by (simp add: lstrip_chars_def dropWhile_append)

lemma strip_lstrip: "strip_chars cs (lstrip_chars cs s) = strip_chars cs s"
  by (simp add: strip_chars_def lstrip_chars_def)

lemma whitespace_simps:
  "CHR 0x09 \<in> set whitespace" "CHR '' '' \<in> set whitespace"
  "CHR ''@'' \<notin> set whitespace" "CHR '','' \<notin> set whitespace" "CHR ''}'' \<notin> set whitespace"
  "CHR ''{'' \<notin> set whitespace" "CHR ''='' \<notin> set whitespace"
  by (simp_all add: whitespace_def)

lemma py_strip_keep:
  "s \<noteq> [] \<Longrightarrow> hd s \<notin> set whitespace \<Longrightarrow> last s \<notin> set whitespace \<Longrightarrow> py_strip s = s"
  by (simp add: py_strip_def strip_chars_keep)

lemma py_rstrip_keep:
  "s \<noteq> [] \<Longrightarrow> last s \<notin> set whitespace \<Longrightarrow> py_rstrip s = s"
  by (simp add: py_rstrip_def rstrip_chars_id)

text \<open>the header line\<close>

lemma header_line_parts:
  assumes "CHR ''{'' \<notin> set et" "CHR '','' \<notin> set k" "py_strip k = k"
  shows "py_strip (''@'' @ et @ ''{'' @ k @ '','') = ''@'' @ et @ ''{'' @ k @ '',''"
    and "split_first ''{'' (drop 1 (''@'' @ et @ ''{'' @ k @ '','')) = Some (et, k @ '','')"
    and "py_strip (split_head '','' (k @ '','')) = k"
proof -
  show "py_strip (''@'' @ et @ ''{'' @ k @ '','') = ''@'' @ et @ ''{'' @ k @ '',''"
    by (rule py_strip_keep) (simp_all add: whitespace_simps)
  show "split_first ''{'' (drop 1 (''@'' @ et @ ''{'' @ k @ '','')) = Some (et, k @ '','')"
    using split_first_single [OF assms(1), of "k @ '',''"] by simp
  show "py_strip (split_head '','' (k @ '','')) = k"
    using split_first_single [OF assms(2), of "[]"] assms(3) by (simp add: split_head_def)
qed

lemma parse_line_header:
  assumes "CHR ''{'' \<notin> set et" "CHR '','' \<notin> set k" "py_strip k = k"
  shows "parse_line (''@'' @ et @ ''{'' @ k @ '','') initial_state =
     \<lparr>parsed_entries = [], entry = [], key = Some k, entry_type = Some et,
      inside_entry = True\<rparr>"
proof -
  have "startswith (''@'' @ et @ ''{'' @ k @ '','') ''@''"
    by (simp add: startswith_def)
  then show ?thesis
    using header_line_parts [OF assms]
    by (simp add: parse_line_def Let_def initial_state_def flush_def)
qed

lemma parse_line_close:
  assumes "inside_entry st" "entry st \<noteq> []" "key st = Some k" "k \<noteq> []"
  shows "parse_line ''}'' st =
     \<lparr>parsed_entries =
        parsed_entries st @ [(k, AList.update ''entry_type'' (entry_type st) (entry st))],
      entry = [], key = None, entry_type = None, inside_entry = False\<rparr>"
proof -
  have 1: "py_strip ''}'' = ''}''"
    by (rule py_strip_keep) (simp_all add: whitespace_simps)
  have 2: "\<not> startswith ''}'' ''@''" "\<not> startswith ''}'' ''=''" "startswith ''}'' ''}''"
    by (simp_all add: startswith_def)
  show ?thesis
    using assms by (simp add: parse_line_def Let_def 1 2 flush_def)
qed

text \<open>the value between the braces\<close>

lemma braced_value:
  assumes "plain_value v" and "tl0 = '','' \<or> tl0 = []"
  shows "py_strip (strip_chars ''{}'' (strip_chars '','' (py_strip ('' {'' @ v @ ''}'' @ tl0)))) = v"
proof -
  let ?b = "''{'' @ v @ ''}''"
  have 1: "py_strip ('' {'' @ v @ ''}'' @ tl0) = ?b @ tl0"
  proof -
    have "py_strip ('' '' @ (?b @ tl0) @ []) = py_strip (?b @ tl0)"
      unfolding py_strip_def by (rule strip_chars_pad) (simp_all add: whitespace_simps)
    moreover have "py_strip (?b @ tl0) = ?b @ tl0"
      using assms(2) by (intro py_strip_keep) (auto simp: whitespace_simps)
    ultimately show ?thesis by simp
  qed
  have 2: "strip_chars '','' (?b @ tl0) = ?b"
  proof -
    have "strip_chars '','' ([] @ ?b @ tl0) = strip_chars '','' ?b"
      using assms(2) by (intro strip_chars_pad) auto
    moreover have "strip_chars '','' ?b = ?b"
      by (rule strip_chars_keep) simp_all
    ultimately show ?thesis by simp
  qed
  have 3: "strip_chars ''{}'' ?b = v"
  proof -
    have "strip_chars ''{}'' (''{'' @ v @ ''}'') = strip_chars ''{}'' v"
      by (rule strip_chars_pad) simp_all
    with assms(1) show ?thesis by (simp add: plain_value_def)
  qed
  show ?thesis
    using assms(1) by (simp only: 1 2 3) (simp add: plain_value_def)
qed

text \<open>the name before the equals sign\<close>

lemma padded_name:
  assumes "plain_field f"
  defines "pre \<equiv> CHR 0x09 # f @ [CHR 0x09, CHR 0x09, CHR '' '']"
  shows "py_lower (py_strip (lstrip_chars whitespace pre)) = f"
    and "CHR ''='' \<notin> set (lstrip_chars whitespace pre)"
    and "\<not> startswith (lstrip_chars whitespace pre @ CHR ''='' # rest) ''@''"
proof -
  have "py_strip ([CHR 0x09] @ f @ [CHR 0x09, CHR 0x09, CHR '' '']) = py_strip f"
    unfolding py_strip_def by (rule strip_chars_pad) (simp_all add: whitespace_simps)
  then have "py_strip pre = f"
    using assms(1) by (simp add: pre_def plain_field_def)
  then show "py_lower (py_strip (lstrip_chars whitespace pre)) = f"
    using assms(1) by (simp add: py_strip_def strip_lstrip plain_field_def)
  have "set (lstrip_chars whitespace pre) \<subseteq> set pre"
    by (auto simp: lstrip_chars_def dest: set_dropWhileD)
  moreover have "CHR ''='' \<notin> set pre"
    using assms(1) by (simp add: pre_def plain_field_def)
  ultimately show "CHR ''='' \<notin> set (lstrip_chars whitespace pre)"
    by blast
  show "\<not> startswith (lstrip_chars whitespace pre @ CHR ''='' # rest) ''@''"
  proof (cases "f = []")
    case True
    then have "lstrip_chars whitespace pre = []"
      by (simp add: pre_def lstrip_chars_def whitespace_simps)
    then show ?thesis
      by (simp add: startswith_def)
  next
    case False
    with assms(1) have h: "hd f \<notin> set whitespace"
      using strip_chars_fixed_ends [of whitespace f] by (simp add: plain_field_def py_strip_def)
    from False obtain c g where f: "f = c # g"
      by (cases f) auto
    with h have "lstrip_chars whitespace pre = f @ [CHR 0x09, CHR 0x09, CHR '' '']"
      by (simp add: pre_def lstrip_chars_def whitespace_simps)
    moreover have "c \<noteq> CHR ''@''"
      using assms(1) f by (simp add: plain_field_def startswith_def)
    ultimately show ?thesis
      by (simp add: f startswith_def)
  qed
qed

lemma field_line_stripped:
  assumes "tl0 = '','' \<or> tl0 = []"
  shows "py_strip (CHR 0x09 # f @ [CHR 0x09, CHR 0x09] @ '' = {'' @ v @ ''}'' @ tl0) =
     lstrip_chars whitespace (CHR 0x09 # f @ [CHR 0x09, CHR 0x09, CHR '' '']) @
       CHR ''='' # ('' {'' @ v @ ''}'' @ tl0)"
proof -
  let ?pre = "CHR 0x09 # f @ [CHR 0x09, CHR 0x09, CHR '' '']"
  let ?rest = "'' {'' @ v @ ''}'' @ tl0"
  have l: "lstrip_chars whitespace (?pre @ CHR ''='' # ?rest) =
            lstrip_chars whitespace ?pre @ CHR ''='' # ?rest"
    by (rule lstrip_before) (simp add: whitespace_simps)
  have "last (lstrip_chars whitespace ?pre @ CHR ''='' # ?rest) \<notin> set whitespace"
    using assms by (auto simp: whitespace_simps)
  then have "rstrip_chars whitespace (lstrip_chars whitespace ?pre @ CHR ''='' # ?rest) =
          lstrip_chars whitespace ?pre @ CHR ''='' # ?rest"
    by (intro rstrip_chars_id) simp
  with l have "py_strip (?pre @ CHR ''='' # ?rest) = lstrip_chars whitespace ?pre @ CHR ''='' # ?rest"
    by (simp add: py_strip_def strip_chars_def)
  then show ?thesis by simp
qed

lemma parse_field_line:
  assumes "inside_entry st" "plain_field f" "plain_value v" "tl0 = '','' \<or> tl0 = []"
  shows "parse_line (CHR 0x09 # f @ [CHR 0x09, CHR 0x09] @ '' = {'' @ v @ ''}'' @ tl0) st =
     st\<lparr>entry := AList.update f (Some v) (entry st)\<rparr>"
proof -
  let ?line = "CHR 0x09 # f @ [CHR 0x09, CHR 0x09] @ '' = {'' @ v @ ''}'' @ tl0"
  let ?raw = "lstrip_chars whitespace (CHR 0x09 # f @ [CHR 0x09, CHR 0x09, CHR '' ''])"
  let ?rhs = "'' {'' @ v @ ''}'' @ tl0"
  note s = field_line_stripped [OF assms(4), of f v]
  have at: "\<not> startswith (py_strip ?line) ''@''"
    unfolding s by (rule padded_name(3) [OF assms(2)])
  from parse_line_assignment [OF assms(1) s padded_name(2) [OF assms(2)] at]
  show ?thesis
    by (simp only: padded_name(1) [OF assms(2)] braced_value [OF assms(3,4)])
qed

lemma field_line_no_comma:
  "rstrip_chars '','' (field_line f v) =
     CHR 0x09 # f @ [CHR 0x09, CHR 0x09] @ '' = {'' @ v @ ''}''"
proof -
  have "rstrip_chars '','' ((CHR 0x09 # f @ [CHR 0x09, CHR 0x09] @ '' = {'' @ v @ ''}'') @ '','') =
        rstrip_chars '','' (CHR 0x09 # f @ [CHR 0x09, CHR 0x09] @ '' = {'' @ v @ ''}'')"
    by (rule rstrip_chars_snoc_drop) simp
  moreover have "rstrip_chars '','' (CHR 0x09 # f @ [CHR 0x09, CHR 0x09] @ '' = {'' @ v @ ''}'') =
        CHR 0x09 # f @ [CHR 0x09, CHR 0x09] @ '' = {'' @ v @ ''}''"
    by (rule rstrip_chars_id) simp
  ultimately show ?thesis
    by (simp add: field_line_def)
qed

lemma file_lines_no_break:
  "no_line_break l \<Longrightarrow>
     file_lines cur l = (if cur @ l = [] then [] else [cur @ l])"
  by (induction l arbitrary: cur) (auto simp: no_line_break_def)

lemma file_lines_line:
  "no_line_break l \<Longrightarrow>
     file_lines cur (l @ CHR 0x0A # rest) = (cur @ l) # file_lines [] rest"
  by (induction l arbitrary: cur) (auto simp: no_line_break_def)

lemma file_lines_join:
  "\<forall>l\<in>set ls. no_line_break l \<and> l \<noteq> [] \<Longrightarrow> file_lines [] (join_lines ls) = ls"
proof (induction ls rule: join_lines.induct)
  case 1
  then show ?case by simp
next
  case (2 l)
  then show ?case by (simp add: file_lines_no_break)
next
  case (3 l m ls)
  then show ?case by (simp add: file_lines_line)
qed

lemma read_lines_join:
  assumes "\<forall>l\<in>set ls. no_line_break l \<and> l \<noteq> [] \<and> last l \<notin> set whitespace"
  shows "read_lines (join_lines ls) = ls"
proof -
  have "file_lines [] (join_lines ls) = ls"
    using assms by (intro file_lines_join) blast
  moreover have "map py_rstrip ls = ls"
    using assms by (intro map_idI) (simp add: py_rstrip_keep)
  ultimately show ?thesis
    by (simp add: read_lines_def)
qed

text \<open>the field lines, with or without their comma\<close>

lemma field_lines_present:
  "list_all2 (is_line_of r) (field_lines r fo) (filter (\<lambda>f. map_of r f \<noteq> None) fo)"
  by (induction fo) (auto simp: is_line_of_def)

lemma fold_field_lines:
  assumes "list_all2 (is_line_of r) ls fs"
    and "\<forall>f\<in>set fs. \<forall>v. map_of r f = Some v \<longrightarrow> plain_field f \<and> plain_value v"
    and "inside_entry st"
  shows "fold parse_line ls st =
     st\<lparr>entry := fold (\<lambda>f e. AList.update f (map_of r f) e) fs (entry st)\<rparr>"
  using assms
proof (induction ls fs arbitrary: st rule: list_all2_induct)
  case Nil
  then show ?case by simp
next
  case (Cons l ls f fs)
  from Cons.hyps(1) obtain v where v: "map_of r f = Some v"
    and l: "l = field_line f v \<or> l = rstrip_chars '','' (field_line f v)"
    by (auto simp: is_line_of_def)
  from Cons.prems(1) v have pl: "plain_field f" "plain_value v"
    by auto
  have step: "parse_line l st = st\<lparr>entry := AList.update f (Some v) (entry st)\<rparr>"
  proof -
    from l consider "l = CHR 0x09 # f @ [CHR 0x09, CHR 0x09] @ '' = {'' @ v @ ''}'' @ '',''"
      | "l = CHR 0x09 # f @ [CHR 0x09, CHR 0x09] @ '' = {'' @ v @ ''}'' @ []"
      by (auto simp: field_line_no_comma) (simp add: field_line_def)
    then show ?thesis
    proof cases
      case 1
      show ?thesis
        unfolding 1 by (rule parse_field_line [OF Cons.prems(2) pl]) simp
    next
      case 2
      show ?thesis
        unfolding 2 by (rule parse_field_line [OF Cons.prems(2) pl]) simp
    qed
  qed
  have "fold parse_line ls (parse_line l st) =
      (parse_line l st)\<lparr>entry := fold (\<lambda>f e. AList.update f (map_of r f) e) fs
                                   (entry (parse_line l st))\<rparr>"
    using Cons.prems by (intro Cons.IH) (simp_all add: step)
  then show ?case
    by (simp add: step v)
qed

lemma fold_update_not_Nil:
  "fs \<noteq> [] \<Longrightarrow> fold (\<lambda>f e. AList.update f (g f) e) fs e \<noteq> []"
proof -
  assume "fs \<noteq> []"
  then obtain x where "x \<in> set fs"
    by (cases fs) auto
  then have "map_of (fold (\<lambda>f e. AList.update f (g f) e) fs e) x = Some (g x)"
    by (simp add: map_of_fold_update)
  then show ?thesis
    by auto
qed

lemma plain_no_break:
  "plain_field f \<Longrightarrow> no_line_break f" "plain_value v \<Longrightarrow> no_line_break v"
  by (simp_all add: plain_field_def plain_value_def)

lemma is_line_of_rstrip:
  assumes "is_line_of r l f"
  shows "is_line_of r (rstrip_chars '','' l) f"
proof -
  from assms obtain v where v: "map_of r f = Some v"
    and l: "l = field_line f v \<or> l = rstrip_chars '','' (field_line f v)"
    by (auto simp: is_line_of_def)
  have "rstrip_chars '','' (rstrip_chars '','' (field_line f v)) = rstrip_chars '','' (field_line f v)"
    unfolding field_line_no_comma by (rule rstrip_chars_id) simp
  with l have "rstrip_chars '','' l = rstrip_chars '','' (field_line f v)"
    by auto
  with v show ?thesis
    by (auto simp: is_line_of_def)
qed

lemma is_line_of_shape:
  assumes "is_line_of r l f" "\<forall>v. map_of r f = Some v \<longrightarrow> plain_field f \<and> plain_value v"
  shows "no_line_break l \<and> l \<noteq> [] \<and> last l \<notin> set whitespace"
proof -
  from assms(1) obtain v where v: "map_of r f = Some v"
    and l: "l = field_line f v \<or> l = rstrip_chars '','' (field_line f v)"
    by (auto simp: is_line_of_def)
  from assms(2) v have "no_line_break f" "no_line_break v"
    by (simp_all add: plain_no_break)
  then have "no_line_break (field_line f v)"
    "no_line_break (CHR 0x09 # f @ [CHR 0x09, CHR 0x09] @ '' = {'' @ v @ ''}'')"
    by (simp_all add: no_line_break_def field_line_def)
  moreover have "last (field_line f v) \<notin> set whitespace"
    "last (CHR 0x09 # f @ [CHR 0x09, CHR 0x09] @ '' = {'' @ v @ ''}'') \<notin> set whitespace"
    by (simp_all add: field_line_def whitespace_simps)
  moreover have "field_line f v \<noteq> []"
    by (simp add: field_line_def)
  ultimately show ?thesis
    using l by (auto simp: field_line_no_comma)
qed

lemma list_all2_left:
  "list_all2 P xs ys \<Longrightarrow> x \<in> set xs \<Longrightarrow> \<exists>y\<in>set ys. P x y"
  by (induction rule: list_all2_induct) auto

lemma bibtex_lines_with_fields:
  assumes "field_lines r fo \<noteq> []"
  shows "bibtex_lines et k r fo =
     (''@'' @ et @ ''{'' @ k @ '','') #
       (field_lines r fo)[length (field_lines r fo) - 1 :=
          rstrip_chars '','' (field_lines r fo ! (length (field_lines r fo) - 1))] @ [''}'']"
proof -
  obtain n where n: "length (field_lines r fo) = Suc n"
    using assms by (cases "field_lines r fo") auto
  show ?thesis
    by (simp add: bibtex_lines_def Let_def n)
qed

lemma header_shape:
  assumes "no_line_break k" "no_line_break et"
  shows "no_line_break (''@'' @ et @ ''{'' @ k @ '','') \<and> ''@'' @ et @ ''{'' @ k @ '','' \<noteq> [] \<and>
     last (''@'' @ et @ ''{'' @ k @ '','') \<notin> set whitespace"
proof -
  have "last ((''@'' @ et @ ''{'' @ k) @ '','') = CHR '',''"
    by (simp only: last_snoc append_assoc [symmetric] append_Cons [symmetric])
  then have "last (''@'' @ et @ ''{'' @ k @ '','') \<notin> set whitespace"
    by (simp add: whitespace_simps)
  moreover have "no_line_break (''@'' @ et @ ''{'' @ k @ '','')"
    using assms by (simp add: no_line_break_def)
  ultimately show ?thesis
    by simp
qed

lemma close_shape:
  "no_line_break ''}'' \<and> ''}'' \<noteq> [] \<and> last ''}'' \<notin> set whitespace"
  by (simp add: no_line_break_def whitespace_simps)

lemma in_lines_cases:
  "l \<in> set (h # b @ [c]) \<Longrightarrow> l = h \<or> l \<in> set b \<or> l = c"
  by auto

lemma round_trip_parse:
  assumes k: "k \<noteq> []" "py_strip k = k" "CHR '','' \<notin> set k" "no_line_break k"
    and et: "CHR ''{'' \<notin> set et" "no_line_break et"
    and some: "\<exists>f\<in>set fo. map_of r f \<noteq> None"
    and plain: "\<forall>f\<in>set fo. \<forall>v. map_of r f = Some v \<longrightarrow> plain_field f \<and> plain_value v"
  shows "parse (serialize k r et fo) =
     [(k, AList.update ''entry_type'' (Some et)
            (fold (\<lambda>f e. AList.update f (map_of r f) e)
               (filter (\<lambda>f. map_of r f \<noteq> None) fo) []))]"
proof -
  let ?present = "filter (\<lambda>f. map_of r f \<noteq> None) fo"
  let ?FL = "field_lines r fo"
  let ?i = "length ?FL - 1"
  let ?body = "?FL[?i := rstrip_chars '','' (?FL ! ?i)]"
  let ?hdr = "''@'' @ et @ ''{'' @ k @ '',''"
  let ?E = "fold (\<lambda>f e. AList.update f (map_of r f) e) ?present []"
  have present: "?present \<noteq> []"
    using some by (simp add: filter_empty_conv)
  have all2: "list_all2 (is_line_of r) ?FL ?present"
    by (rule field_lines_present)
  then have len: "length ?FL = length ?present"
    by (rule list_all2_lengthD)
  with present have FL: "?FL \<noteq> []"
    by auto
  then have i: "?i < length ?FL"
    by (cases ?FL) auto
  have "is_line_of r (?FL ! ?i) (?present ! ?i)"
    using all2 i by (rule list_all2_nthD)
  then have "is_line_of r (rstrip_chars '','' (?FL ! ?i)) (?present ! ?i)"
    by (rule is_line_of_rstrip)
  with all2 have "list_all2 (is_line_of r) ?body (?present[?i := ?present ! ?i])"
    by (rule list_all2_update_cong)
  then have body: "list_all2 (is_line_of r) ?body ?present"
    by simp
  have plain': "\<forall>f\<in>set ?present. \<forall>v. map_of r f = Some v \<longrightarrow> plain_field f \<and> plain_value v"
    using plain by auto
  have lines: "bibtex_lines et k r fo = ?hdr # ?body @ [''}'']"
    using FL by (rule bibtex_lines_with_fields)
  have shape: "no_line_break l \<and> l \<noteq> [] \<and> last l \<notin> set whitespace"
    if "l \<in> set (?hdr # ?body @ [''}''])" for l
  proof -
    from that have "l = ?hdr \<or> l \<in> set ?body \<or> l = ''}''"
      by (rule in_lines_cases)
    then consider "l = ?hdr" | "l \<in> set ?body" | "l = ''}''"
      by blast
    then show ?thesis
    proof cases
      case 1
      show ?thesis
        unfolding 1 using k(4) et(2) by (rule header_shape)
    next
      case 2
      from list_all2_left [OF body 2]
      obtain f where "f \<in> set ?present" "is_line_of r l f" ..
      from plain' \<open>f \<in> set ?present\<close>
      have "\<forall>v. map_of r f = Some v \<longrightarrow> plain_field f \<and> plain_value v"
        by (rule bspec)
      with \<open>is_line_of r l f\<close> show ?thesis
        by (rule is_line_of_shape)
    next
      case 3
      show ?thesis
        unfolding 3 by (rule close_shape)
    qed
  qed
  have read: "read_lines (serialize k r et fo) = ?hdr # ?body @ [''}'']"
    unfolding serialize_def lines
  proof (rule read_lines_join, rule ballI)
    fix l
    assume "l \<in> set ((''@'' @ et @ ''{'' @ k @ '','') # ?body @ [''}''])"
    then show "no_line_break l \<and> l \<noteq> [] \<and> last l \<notin> set whitespace"
      by (rule shape)
  qed
  let ?st1 = "\<lparr>parsed_entries = [], entry = [], key = Some k, entry_type = Some et,
      inside_entry = True\<rparr>"
  have s1: "parse_line ?hdr initial_state = ?st1"
    using et(1) k(3) k(2) by (rule parse_line_header)
  have s2: "fold parse_line ?body ?st1 = ?st1\<lparr>entry := ?E\<rparr>"
    using fold_field_lines [OF body plain', of ?st1] by simp
  have E: "?E \<noteq> []"
    using present by (rule fold_update_not_Nil)
  have s3: "parse_line ''}'' (?st1\<lparr>entry := ?E\<rparr>) =
     \<lparr>parsed_entries = [(k, AList.update ''entry_type'' (Some et) ?E)],
      entry = [], key = None, entry_type = None, inside_entry = False\<rparr>"
    using parse_line_close [of "?st1\<lparr>entry := ?E\<rparr>" k] E k(1) by simp
  have "fold parse_line (?hdr # ?body @ [''}'']) initial_state =
      parse_line ''}'' (fold parse_line ?body (parse_line ?hdr initial_state))"
    by (simp only: fold_Cons fold_append fold_Nil o_apply id_apply)
  also have "\<dots> = \<lparr>parsed_entries = [(k, AList.update ''entry_type'' (Some et) ?E)],
      entry = [], key = None, entry_type = None, inside_entry = False\<rparr>"
    by (simp only: s1 s2 s3)
  finally have "flush (fold parse_line (read_lines (serialize k r et fo)) initial_state) =
      \<lparr>parsed_entries = [(k, AList.update ''entry_type'' (Some et) ?E)],
      entry = [], key = None, entry_type = None, inside_entry = False\<rparr>"
    unfolding read by (simp add: flush_def)
  then show ?thesis
    by (simp add: parse_def)
qed

text \<open>
  C1, as the code has it.  The importer reads back exactly one entry, with the key, the
  fields of the record that are in the field order and the entry type of the header, when
  the text can survive its line-oriented reading: the key is non-empty, stripped, and has
  no comma and no line break; the entry type has no opening brace and no line break; at
  least one field of the record is in the field order; and each such field has a plain
  name and a plain value.
\<close>

theorem round_trip:
  assumes "k \<noteq> []" "py_strip k = k" "CHR '','' \<notin> set k" "no_line_break k"
    and "CHR ''{'' \<notin> set et" "no_line_break et"
    and "\<exists>f\<in>set fo. map_of r f \<noteq> None"
    and "\<forall>f\<in>set fo. \<forall>v. map_of r f = Some v \<longrightarrow> plain_field f \<and> plain_value v"
  shows "\<exists>r'. parse (serialize k r et fo) = [(k, r')] \<and>
     map_of r' = (\<lambda>f. if f = ''entry_type'' then Some (Some et)
                       else map_option Some ((map_of r |` set fo) f))"
proof -
  let ?E = "fold (\<lambda>f e. AList.update f (map_of r f) e) (filter (\<lambda>f. map_of r f \<noteq> None) fo) []"
  have "map_of (AList.update ''entry_type'' (Some et) ?E) f =
      (if f = ''entry_type'' then Some (Some et) else map_option Some ((map_of r |` set fo) f))"
    for f
    by (auto simp: update_conv' map_of_fold_update restrict_map_def)
  then have "map_of (AList.update ''entry_type'' (Some et) ?E) =
      (\<lambda>f. if f = ''entry_type'' then Some (Some et) else map_option Some ((map_of r |` set fo) f))"
    by (rule ext)
  with round_trip_parse [OF assms] show ?thesis
    by blast
qed


theorem round_trip_witness:
  "\<exists>r'. parse (serialize ''k1'' [(''title'', ''Foo, Bar''), (''year'', ''1999''), (''note'', ''n'')]
               ''article'' [''year'', ''title'']) = [(''k1'', r')] \<and>
        map_of r' ''title'' = Some (Some ''Foo, Bar'') \<and> map_of r' ''year'' = Some (Some ''1999'') \<and>
        map_of r' ''note'' = None \<and> map_of r' ''entry_type'' = Some (Some ''article'')"
proof -
  let ?r = "[(''title'', ''Foo, Bar''), (''year'', ''1999''), (''note'', ''n'')]"
  have k: "''k1'' \<noteq> []" "py_strip ''k1'' = ''k1''" "CHR '','' \<notin> set ''k1''" "no_line_break ''k1''"
    by code_simp+
  have et: "CHR ''{'' \<notin> set ''article''" "no_line_break ''article''"
    by code_simp+
  have some: "\<exists>f\<in>set [''year'', ''title'']. map_of ?r f \<noteq> None"
    by simp
  have p: "plain_field ''year''" "plain_value ''1999''" "plain_field ''title''"
    "plain_value ''Foo, Bar''"
    by code_simp+
  have plain: "\<forall>f\<in>set [''year'', ''title'']. \<forall>v. map_of ?r f = Some v \<longrightarrow>
      plain_field f \<and> plain_value v"
    using p by simp
  from round_trip [OF k et some plain]
  obtain r' where "parse (serialize ''k1'' ?r ''article'' [''year'', ''title'']) = [(''k1'', r')]"
    and "map_of r' = (\<lambda>f. if f = ''entry_type'' then Some (Some ''article'')
                       else map_option Some ((map_of ?r |` set [''year'', ''title'']) f))"
    by blast
  then show ?thesis
    by (intro exI [of _ r']) (simp add: restrict_map_def)
qed

theorem round_trip_counterexample:
  "parse (serialize ''k1'' [(''title'', ''{Foo}'')] ''article'' [''title'']) =
     [(''k1'', [(''title'', Some ''Foo''), (''entry_type'', Some ''article'')])] \<and>
   parse (serialize ''k1'' [(''title'', ''Foo'')] ''article'' []) = []"
  by code_simp

end
